theory Spec2Isabelle
  imports Main "HOL-Library.Sublist" "HOL-Library.List_Lexorder"
begin

section \<open>Data model (track/optimizer-types.ts)\<close>

text \<open>The interfaces of the source become records. Several interfaces share field names
  (\<open>athlete\<close>, \<open>event\<close>, \<open>projectedPoints\<close>, ...), so each field carries a prefix of its
  record; the fields of \<open>OptimizationResult\<close> keep their names.

  A row of a ranking category. Ranks, places and points are integers; a malformed rank
  (zero or negative) is representable.\<close>

record RankingRow =
  rk_rank :: int
  rk_athlete :: string
  rk_team :: string

record EventRankingData =
  erd_eventAbbr :: string
  erd_eventName :: string
  erd_gender :: string
  erd_grade :: string
  erd_rankings :: "RankingRow list"

record AthleteEntry =
  ae_athlete :: string
  ae_firstName :: string
  ae_lastName :: string
  ae_events :: "string list"
  ae_projectedPoints :: int

record EventAthlete =
  ea_athlete :: string
  ea_projectedPlace :: int
  ea_projectedPoints :: int
  ea_currentRank :: int

record EventEntry =
  ee_event :: string
  ee_eventName :: string
  ee_athletes :: "EventAthlete list"

record OptimizationResult =
  school :: string
  gender :: string
  grade :: string
  totalProjectedPoints :: int
  athleteEntries :: "AthleteEntry list"
  eventBreakdown :: "EventEntry list"

text \<open>The value stored per event in the simple optimizer's \<open>athleteScores\<close>.\<close>

record Score =
  sc_rank :: int
  sc_points :: int

text \<open>\<open>AthleteEventScore\<close> of the advanced optimizer.\<close>

record AthleteEventScore =
  aes_athlete :: string
  aes_team :: string
  aes_event :: string
  aes_rank :: int
  aes_projectedPlace :: int
  aes_points :: int

subsection \<open>The ranking store read by \<open>loadRankings\<close>\<close>

text \<open>A ranking file as \<open>JSON.parse\<close> returns it: the fields the optimizers read.\<close>

record RankingCategory =
  cat_gender :: string
  cat_grade :: string
  cat_rankings :: "RankingRow list"

record RankingFile =
  rf_eventAbbr :: string
  rf_event :: string
  rf_categories :: "RankingCategory list"

text \<open>A path is absent, a directory (its entries in \<open>readdirSync\<close> order, each with its
  parsed content, or \<open>None\<close> when reading or parsing it throws), or something else.\<close>

datatype fs_node = Directory "(string \<times> RankingFile option) list" | NotADirectory

type_synonym filesystem = "string \<Rightarrow> fs_node option"

datatype error =
  DirectoryNotFound string
  | ReaddirFailed string
  | ReadFailed string
  | TypeError

section \<open>JavaScript containers and built-ins\<close>

text \<open>A \<open>Map\<close> keeps its keys in insertion order: an association list with distinct
  keys. \<open>get\<close> is \<open>map_of\<close>.\<close>

definition jsmap_has :: "('k \<times> 'v) list \<Rightarrow> 'k \<Rightarrow> bool" where
  "jsmap_has m k = (map_of m k \<noteq> None)"

text \<open>\<open>m.set(k, v)\<close>: a present key keeps its position.\<close>

fun jsmap_set :: "'k \<Rightarrow> 'v \<Rightarrow> ('k \<times> 'v) list \<Rightarrow> ('k \<times> 'v) list" where
  "jsmap_set k v [] = [(k, v)]"
| "jsmap_set k v ((k', v') # m) =
     (if k' = k then (k', v) # m else (k', v') # jsmap_set k v m)"

text \<open>The idiom \<open>if (!m.has(k)) m.set(k, d); m.get(k)!.mutate()\<close>, where \<open>f\<close> is the
  mutation of the stored value.\<close>

fun jsmap_upsert :: "'k \<Rightarrow> 'v \<Rightarrow> ('v \<Rightarrow> 'v) \<Rightarrow> ('k \<times> 'v) list \<Rightarrow> ('k \<times> 'v) list" where
  "jsmap_upsert k d f [] = [(k, f d)]"
| "jsmap_upsert k d f ((k', v) # m) =
     (if k' = k then (k', f v) # m else (k', v) # jsmap_upsert k d f m)"

text \<open>\<open>m.get(k)!.mutate()\<close> on a key that is present.\<close>

fun jsmap_modify :: "'k \<Rightarrow> ('v \<Rightarrow> 'v) \<Rightarrow> ('k \<times> 'v) list \<Rightarrow> ('k \<times> 'v) list" where
  "jsmap_modify k f [] = []"
| "jsmap_modify k f ((k', v) # m) =
     (if k' = k then (k', f v) # m else (k', v) # jsmap_modify k f m)"

text \<open>\<open>Array.prototype.sort\<close> with a comparator: the sort is stable, and for a consistent
  comparator its result is the one a stable insertion sort gives.\<close>

fun js_insort :: "('a \<Rightarrow> 'a \<Rightarrow> int) \<Rightarrow> 'a \<Rightarrow> 'a list \<Rightarrow> 'a list" where
  "js_insort cmp x [] = [x]"
| "js_insort cmp x (y # ys) = (if cmp x y \<le> 0 then x # y # ys else y # js_insort cmp x ys)"

definition js_sort :: "('a \<Rightarrow> 'a \<Rightarrow> int) \<Rightarrow> 'a list \<Rightarrow> 'a list" where
  "js_sort cmp xs = foldr (js_insort cmp) xs []"

text \<open>\<open>String.prototype.localeCompare\<close> belongs to the runtime, not to the repository: it
  orders strings by their collation keys. The key function \<open>collate\<close> is a parameter.\<close>

definition localeCompare :: "(string \<Rightarrow> 'c::linorder) \<Rightarrow> string \<Rightarrow> string \<Rightarrow> int" where
  "localeCompare collate a b =
     (if collate a < collate b then - 1 else if collate b < collate a then 1 else 0)"

text \<open>The destructuring \<open>[firstName, ...lastNameParts] = athlete.split(' ')\<close> followed by
  \<open>lastNameParts.join(' ')\<close>: the text before the first space, and the text after it.\<close>

definition firstNameOf :: "string \<Rightarrow> string" where
  "firstNameOf athlete = takeWhile (\<lambda>c. c \<noteq> CHR '' '') athlete"

definition lastNameOf :: "string \<Rightarrow> string" where
  "lastNameOf athlete = drop 1 (dropWhile (\<lambda>c. c \<noteq> CHR '' '') athlete)"

text \<open>A loop whose body may throw: the first error ends it.\<close>

fun fold_sum :: "('a \<Rightarrow> 's \<Rightarrow> error + 's) \<Rightarrow> 'a list \<Rightarrow> 's \<Rightarrow> error + 's" where
  "fold_sum f [] s = Inr s"
| "fold_sum f (x # xs) s = (case f x s of Inl e \<Rightarrow> Inl e | Inr s' \<Rightarrow> fold_sum f xs s')"

section \<open>Event classification (common/result-utils.ts)\<close>

definition trackEvents :: "string list" where
  "trackEvents = [''60'', ''100'', ''200'', ''400'', ''800'', ''1600'', ''3200'',
                  ''4x100'', ''4x200'', ''4x400'', ''4x800'']"

definition isTrackEvent :: "string \<Rightarrow> bool" where
  "isTrackEvent eventAbbr = (eventAbbr \<in> set trackEvents)"

definition isFieldEvent :: "string \<Rightarrow> bool" where
  "isFieldEvent eventAbbr = (\<not> isTrackEvent eventAbbr)"

section \<open>Points table\<close>

text \<open>Both optimizer files declare the same constant \<open>POINTS_TABLE\<close>; a JavaScript
  object lookup at a key that is absent gives \<open>undefined\<close>, here \<open>None\<close>.\<close>

definition POINTS_TABLE :: "int \<rightharpoonup> int" where
  "POINTS_TABLE = [1 \<mapsto> 8, 2 \<mapsto> 6, 3 \<mapsto> 4, 4 \<mapsto> 2, 5 \<mapsto> 1]"

text \<open>The expression \<open>POINTS_TABLE[place] || 0\<close>: an absent entry, and a falsy one, give 0.\<close>

definition points_lookup :: "int \<Rightarrow> int" where
  "points_lookup place =
     (case POINTS_TABLE place of None \<Rightarrow> 0 | Some v \<Rightarrow> if v = 0 then 0 else v)"

section \<open>Legality of an event combination\<close>

text \<open>\<open>SimpleTeamEntryOptimizer.isValidCombination\<close>.\<close>

definition simple_isValidCombination :: "string list \<Rightarrow> bool" where
  "simple_isValidCombination events =
     (if length events > 4 then False
      else
        let has1600 = (''1600'' \<in> set events);
            has800 = (''800'' \<in> set events)
        in if has1600 \<and> has800 then
             (let runningEvents = filter isTrackEvent events;
                  otherRunning = filter (\<lambda>e. e \<noteq> ''1600'' \<and> e \<noteq> ''800'') runningEvents
              in if length otherRunning > 1 then False
                 else if length events = 4 then
                   (let fieldEvents = filter isFieldEvent events
                    in if length fieldEvents = 0 then False else True)
                 else True)
           else True)"

text \<open>\<open>AdvancedTeamEntryOptimizer.isValidCombination\<close>, a second copy in the source.\<close>

definition advanced_isValidCombination :: "string list \<Rightarrow> bool" where
  "advanced_isValidCombination events =
     (if length events > 4 then False
      else
        let has1600 = (''1600'' \<in> set events);
            has800 = (''800'' \<in> set events)
        in if has1600 \<and> has800 then
             (let runningEvents = filter isTrackEvent events;
                  otherRunning = filter (\<lambda>e. e \<noteq> ''1600'' \<and> e \<noteq> ''800'') runningEvents
              in if length otherRunning > 1 then False
                 else if length events = 4 then
                   (let fieldEvents = filter isFieldEvent events
                    in if length fieldEvents = 0 then False else True)
                 else True)
           else True)"

text \<open>The simpler predicate of the specification: the cap of four events and, for a
  distance double, at most one further track event; no clause about field events.\<close>

definition capAndDoubleRule :: "string list \<Rightarrow> bool" where
  "capAndDoubleRule events =
     (length events \<le> 4 \<and>
      (''1600'' \<in> set events \<and> ''800'' \<in> set events \<longrightarrow>
         length (filter (\<lambda>e. isTrackEvent e \<and> e \<noteq> ''1600'' \<and> e \<noteq> ''800'') events) \<le> 1))"

section \<open>Loading the rankings\<close>

text \<open>\<open>loadRankings\<close>, the same code in both optimizer classes. Only a missing directory
  is checked for; a file without a category of the requested gender and grade is skipped,
  and nothing is thrown when no file has one.\<close>

definition isRankingFile :: "string \<Rightarrow> string \<Rightarrow> bool" where
  "isRankingFile season f =
     (prefix (''event_rankings_'' @ season @ ''_'') f \<and> suffix ''.json'' f)"

fun loadFiles :: "string \<Rightarrow> string \<Rightarrow> (string \<times> RankingFile option) list
    \<Rightarrow> EventRankingData list \<Rightarrow> error + EventRankingData list" where
  "loadFiles gender' grade' [] rankings = Inr rankings"
| "loadFiles gender' grade' ((file, None) # files) rankings = Inl (ReadFailed file)"
| "loadFiles gender' grade' ((file, Some data) # files) rankings =
     (case find (\<lambda>cat. cat_gender cat = gender' \<and> cat_grade cat = grade') (rf_categories data) of
        Some category \<Rightarrow>
          loadFiles gender' grade' files
            (rankings @ [\<lparr>erd_eventAbbr = rf_eventAbbr data, erd_eventName = rf_event data,
                          erd_gender = gender', erd_grade = grade',
                          erd_rankings = cat_rankings category\<rparr>])
      | None \<Rightarrow> loadFiles gender' grade' files rankings)"

definition loadRankings :: "filesystem \<Rightarrow> string \<Rightarrow> string \<Rightarrow> string \<Rightarrow> string
    \<Rightarrow> error + EventRankingData list" where
  "loadRankings fs rankingsDir season gender' grade' =
     (case fs rankingsDir of
        None \<Rightarrow> Inl (DirectoryNotFound rankingsDir)
      | Some NotADirectory \<Rightarrow> Inl (ReaddirFailed rankingsDir)
      | Some (Directory entries) \<Rightarrow>
          loadFiles gender' grade' (filter (\<lambda>(f, c). isRankingFile season f) entries) [])"

section \<open>Sorting and totalling the result\<close>

text \<open>The end of both \<open>optimize\<close> functions, the same code in each: the three sorts, the
  total, and the returned object.\<close>

definition finishResult :: "(string \<Rightarrow> 'c::linorder) \<Rightarrow> string \<Rightarrow> string \<Rightarrow> string
    \<Rightarrow> AthleteEntry list \<Rightarrow> (string \<times> EventEntry) list \<Rightarrow> OptimizationResult" where
  "finishResult collate teamName gender' grade' entries eventEntries =
     (let sortedEntries =
            js_sort (\<lambda>a b. ae_projectedPoints b - ae_projectedPoints a) entries;
          breakdown =
            js_sort (\<lambda>a b. localeCompare collate (ee_event a) (ee_event b)) (map snd eventEntries);
          breakdown' =
            map (\<lambda>event. event\<lparr>ee_athletes :=
                   js_sort (\<lambda>a b. ea_projectedPlace a - ea_projectedPlace b) (ee_athletes event)\<rparr>)
              breakdown;
          totalPoints = foldl (\<lambda>acc a. acc + ae_projectedPoints a) 0 sortedEntries
      in \<lparr>school = teamName, gender = gender', grade = grade',
          totalProjectedPoints = totalPoints,
          athleteEntries = sortedEntries, eventBreakdown = breakdown'\<rparr>)"

section \<open>The simple optimizer\<close>

text \<open>The body of the two nested loops that fill \<open>athleteScores\<close>.\<close>

definition simple_addRanking :: "string \<Rightarrow> string \<Rightarrow> RankingRow
    \<Rightarrow> (string \<times> (string \<times> Score) list) list \<Rightarrow> (string \<times> (string \<times> Score) list) list" where
  "simple_addRanking teamName eventAbbr ranking athleteScores =
     (if rk_team ranking = teamName then
        let points = points_lookup (rk_rank ranking)
        in jsmap_upsert (rk_athlete ranking) []
             (jsmap_set eventAbbr \<lparr>sc_rank = rk_rank ranking, sc_points = points\<rparr>) athleteScores
      else athleteScores)"

definition simple_athleteScores :: "string \<Rightarrow> EventRankingData list
    \<Rightarrow> (string \<times> (string \<times> Score) list) list" where
  "simple_athleteScores teamName allRankings =
     fold (\<lambda>eventData. fold (simple_addRanking teamName (erd_eventAbbr eventData))
                         (erd_rankings eventData))
       allRankings []"

text \<open>The comparator of \<open>sortedEvents\<close>: points descending, then rank ascending.\<close>

definition simple_compare :: "string \<times> Score \<Rightarrow> string \<times> Score \<Rightarrow> int" where
  "simple_compare a b =
     (if sc_points (snd b) \<noteq> sc_points (snd a) then sc_points (snd b) - sc_points (snd a)
      else sc_rank (snd a) - sc_rank (snd b))"

text \<open>The greedy selection loop over \<open>sortedEvents\<close>.\<close>

fun simple_greedy :: "(string \<times> Score) list \<Rightarrow> string list \<Rightarrow> string list" where
  "simple_greedy [] selectedEvents = selectedEvents"
| "simple_greedy ((event, score) # rest) selectedEvents =
     (if length selectedEvents \<ge> 4 then selectedEvents
      else
        let testEvents = selectedEvents @ [event]
        in if simple_isValidCombination testEvents
           then simple_greedy rest (selectedEvents @ [event])
           else simple_greedy rest selectedEvents)"

text \<open>\<open>selectedEvents.reduce((sum, event) => sum + eventScores.get(event)!.points, 0)\<close>;
  reading \<open>points\<close> of a missing score throws.\<close>

fun simple_totalPoints :: "(string \<times> Score) list \<Rightarrow> string list \<Rightarrow> int \<Rightarrow> error + int" where
  "simple_totalPoints eventScores [] acc = Inr acc"
| "simple_totalPoints eventScores (event # rest) acc =
     (case map_of eventScores event of
        None \<Rightarrow> Inl TypeError
      | Some score \<Rightarrow> simple_totalPoints eventScores rest (acc + sc_points score))"

text \<open>The loop that adds an athlete's selected events to the breakdown. \<open>eventData\<close> is
  read only when the event has no entry yet, \<open>score\<close> at every turn.\<close>

definition simple_addEvent :: "EventRankingData list \<Rightarrow> string \<Rightarrow> (string \<times> Score) list
    \<Rightarrow> string \<Rightarrow> (string \<times> EventEntry) list \<Rightarrow> error + (string \<times> EventEntry) list" where
  "simple_addEvent allRankings athlete eventScores event eventEntries =
     (case map_of eventScores event of
        None \<Rightarrow> Inl TypeError
      | Some score \<Rightarrow>
          let push = (\<lambda>entry. entry\<lparr>ee_athletes := ee_athletes entry @
                        [\<lparr>ea_athlete = athlete, ea_projectedPlace = sc_rank score,
                          ea_projectedPoints = sc_points score, ea_currentRank = sc_rank score\<rparr>]\<rparr>)
          in if jsmap_has eventEntries event then Inr (jsmap_modify event push eventEntries)
             else
               (case find (\<lambda>e. erd_eventAbbr e = event) allRankings of
                  None \<Rightarrow> Inl TypeError
                | Some eventData \<Rightarrow>
                    Inr (jsmap_upsert event
                           \<lparr>ee_event = event, ee_eventName = erd_eventName eventData,
                            ee_athletes = []\<rparr> push eventEntries)))"

text \<open>The body of the loop over the athletes.\<close>

definition simple_processAthlete :: "EventRankingData list \<Rightarrow> string \<times> (string \<times> Score) list
    \<Rightarrow> AthleteEntry list \<times> (string \<times> EventEntry) list
    \<Rightarrow> error + (AthleteEntry list \<times> (string \<times> EventEntry) list)" where
  "simple_processAthlete allRankings ath st =
     (case ath of (athlete, eventScores) \<Rightarrow>
      case st of (entries, eventEntries) \<Rightarrow>
        let sortedEvents = js_sort simple_compare eventScores;
            selectedEvents = simple_greedy sortedEvents []
        in case simple_totalPoints eventScores selectedEvents 0 of
             Inl e \<Rightarrow> Inl e
           | Inr totalPoints \<Rightarrow>
               if length selectedEvents > 0 then
                 (case fold_sum (simple_addEvent allRankings athlete eventScores)
                         selectedEvents eventEntries of
                    Inl e \<Rightarrow> Inl e
                  | Inr eventEntries' \<Rightarrow>
                      Inr (entries @
                             [\<lparr>ae_athlete = athlete, ae_firstName = firstNameOf athlete,
                               ae_lastName = lastNameOf athlete, ae_events = selectedEvents,
                               ae_projectedPoints = totalPoints\<rparr>],
                           eventEntries'))
               else Inr (entries, eventEntries))"

text \<open>\<open>SimpleTeamEntryOptimizer.optimize\<close> after the rankings are loaded.\<close>

definition simple_core :: "(string \<Rightarrow> 'c::linorder) \<Rightarrow> EventRankingData list \<Rightarrow> string
    \<Rightarrow> string \<Rightarrow> string \<Rightarrow> error + OptimizationResult" where
  "simple_core collate allRankings teamName gender' grade' =
     (case fold_sum (simple_processAthlete allRankings)
             (simple_athleteScores teamName allRankings) ([], []) of
        Inl e \<Rightarrow> Inl e
      | Inr (entries, eventEntries) \<Rightarrow>
          Inr (finishResult collate teamName gender' grade' entries eventEntries))"

definition simple_optimize :: "(string \<Rightarrow> 'c::linorder) \<Rightarrow> filesystem \<Rightarrow> string \<Rightarrow> string
    \<Rightarrow> string \<Rightarrow> string \<Rightarrow> string \<Rightarrow> error + OptimizationResult" where
  "simple_optimize collate fs rankingsDir season teamName gender' grade' =
     (case loadRankings fs rankingsDir season gender' grade' of
        Inl e \<Rightarrow> Inl e
      | Inr allRankings \<Rightarrow> simple_core collate allRankings teamName gender' grade')"

section \<open>The advanced optimizer\<close>

text \<open>\<open>predictCompetition\<close>: per event, the athletes of each team in row order
  (\<open>teamAthletes\<close>), of which the first three at most are marked as likely entrants.\<close>

definition teamAthletesOf :: "RankingRow list \<Rightarrow> (string \<times> string list) list" where
  "teamAthletesOf rows =
     fold (\<lambda>ranking. jsmap_upsert (rk_team ranking) []
                         (\<lambda>athletes. athletes @ [rk_athlete ranking]))
       rows []"

definition addLikely :: "string \<Rightarrow> string \<times> string list
    \<Rightarrow> (string \<times> string set) list \<Rightarrow> (string \<times> string set) list" where
  "addLikely eventAbbr teamEntry likelyEntries =
     (case teamEntry of (team, athletes) \<Rightarrow>
        let topAthletes = take (min 3 (length athletes)) athletes
        in fold (\<lambda>athlete. jsmap_upsert athlete {} (insert eventAbbr)) topAthletes likelyEntries)"

definition predictCompetition :: "EventRankingData list \<Rightarrow> (string \<times> string set) list" where
  "predictCompetition allRankings =
     fold (\<lambda>eventData. fold (addLikely (erd_eventAbbr eventData))
                          (teamAthletesOf (erd_rankings eventData)))
       allRankings []"

text \<open>\<open>calculateProjectedPlace\<close>: the parameter \<open>athlete\<close> is not read by the source.\<close>

definition calculateProjectedPlace :: "string \<Rightarrow> string \<Rightarrow> int \<Rightarrow> (string \<times> string set) list
    \<Rightarrow> EventRankingData \<Rightarrow> int" where
  "calculateProjectedPlace athlete event currentRank likelyEntries eventRankings =
     (let competitorsAhead =
        fold (\<lambda>ranking competitorsAhead.
                if rk_rank ranking < currentRank then
                  (case map_of likelyEntries (rk_athlete ranking) of
                     Some athleteEvents \<Rightarrow>
                       if event \<in> athleteEvents then competitorsAhead + 1 else competitorsAhead
                   | None \<Rightarrow> competitorsAhead)
                else competitorsAhead)
          (erd_rankings eventRankings) 0
      in competitorsAhead + 1)"

text \<open>The body of the two nested loops that fill \<open>athleteOptions\<close>.\<close>

definition advanced_addRanking :: "string \<Rightarrow> (string \<times> string set) list \<Rightarrow> EventRankingData
    \<Rightarrow> RankingRow \<Rightarrow> (string \<times> AthleteEventScore list) list
    \<Rightarrow> (string \<times> AthleteEventScore list) list" where
  "advanced_addRanking teamName likelyEntries eventData ranking athleteOptions =
     (if rk_team ranking = teamName then
        let projectedPlace =
              calculateProjectedPlace (rk_athlete ranking) (erd_eventAbbr eventData)
                (rk_rank ranking) likelyEntries eventData;
            points = points_lookup projectedPlace
        in jsmap_upsert (rk_athlete ranking) []
             (\<lambda>options. options @
                [\<lparr>aes_athlete = rk_athlete ranking, aes_team = teamName,
                  aes_event = erd_eventAbbr eventData, aes_rank = rk_rank ranking,
                  aes_projectedPlace = projectedPlace, aes_points = points\<rparr>])
             athleteOptions
      else athleteOptions)"

definition advanced_athleteOptions :: "string \<Rightarrow> (string \<times> string set) list
    \<Rightarrow> EventRankingData list \<Rightarrow> (string \<times> AthleteEventScore list) list" where
  "advanced_athleteOptions teamName likelyEntries allRankings =
     fold (\<lambda>eventData. fold (advanced_addRanking teamName likelyEntries eventData)
                          (erd_rankings eventData))
       allRankings []"

text \<open>The comparator of \<open>sortedOptions\<close>: points descending, then projected place
  ascending.\<close>

definition advanced_compare :: "AthleteEventScore \<Rightarrow> AthleteEventScore \<Rightarrow> int" where
  "advanced_compare a b =
     (if aes_points b \<noteq> aes_points a then aes_points b - aes_points a
      else aes_projectedPlace a - aes_projectedPlace b)"

text \<open>The greedy selection loop; \<open>selectedEvents\<close> and \<open>selectedScores\<close> grow together.\<close>

fun advanced_greedy :: "AthleteEventScore list \<Rightarrow> string list \<times> AthleteEventScore list
    \<Rightarrow> string list \<times> AthleteEventScore list" where
  "advanced_greedy [] sel = sel"
| "advanced_greedy (option # rest) (selectedEvents, selectedScores) =
     (if length selectedEvents \<ge> 4 then (selectedEvents, selectedScores)
      else
        let testEvents = selectedEvents @ [aes_event option]
        in if advanced_isValidCombination testEvents
           then advanced_greedy rest (selectedEvents @ [aes_event option], selectedScores @ [option])
           else advanced_greedy rest (selectedEvents, selectedScores))"

text \<open>The loop that adds an athlete's selected scores to the breakdown. \<open>eventData\<close> is
  read only when the event has no entry yet.\<close>

definition advanced_addScore :: "EventRankingData list \<Rightarrow> string \<Rightarrow> AthleteEventScore
    \<Rightarrow> (string \<times> EventEntry) list \<Rightarrow> error + (string \<times> EventEntry) list" where
  "advanced_addScore allRankings athlete score eventEntries =
     (let push = (\<lambda>entry. entry\<lparr>ee_athletes := ee_athletes entry @
                    [\<lparr>ea_athlete = athlete, ea_projectedPlace = aes_projectedPlace score,
                      ea_projectedPoints = aes_points score, ea_currentRank = aes_rank score\<rparr>]\<rparr>)
      in if jsmap_has eventEntries (aes_event score)
         then Inr (jsmap_modify (aes_event score) push eventEntries)
         else
           (case find (\<lambda>e. erd_eventAbbr e = aes_event score) allRankings of
              None \<Rightarrow> Inl TypeError
            | Some eventData \<Rightarrow>
                Inr (jsmap_upsert (aes_event score)
                       \<lparr>ee_event = aes_event score, ee_eventName = erd_eventName eventData,
                        ee_athletes = []\<rparr> push eventEntries)))"

text \<open>The body of the loop over the athletes.\<close>

definition advanced_processAthlete :: "EventRankingData list \<Rightarrow> string \<times> AthleteEventScore list
    \<Rightarrow> AthleteEntry list \<times> (string \<times> EventEntry) list
    \<Rightarrow> error + (AthleteEntry list \<times> (string \<times> EventEntry) list)" where
  "advanced_processAthlete allRankings ath st =
     (case ath of (athlete, options) \<Rightarrow>
      case st of (entries, eventEntries) \<Rightarrow>
        let sortedOptions = js_sort advanced_compare options
        in case advanced_greedy sortedOptions ([], []) of (selectedEvents, selectedScores) \<Rightarrow>
          let totalPoints = foldl (\<lambda>acc s. acc + aes_points s) 0 selectedScores
          in if length selectedEvents > 0 then
               (case fold_sum (advanced_addScore allRankings athlete) selectedScores eventEntries of
                  Inl e \<Rightarrow> Inl e
                | Inr eventEntries' \<Rightarrow>
                    Inr (entries @
                           [\<lparr>ae_athlete = athlete, ae_firstName = firstNameOf athlete,
                             ae_lastName = lastNameOf athlete, ae_events = selectedEvents,
                             ae_projectedPoints = totalPoints\<rparr>],
                         eventEntries'))
             else Inr (entries, eventEntries))"

text \<open>\<open>AdvancedTeamEntryOptimizer.optimize\<close> after the rankings are loaded.\<close>

definition advanced_core :: "(string \<Rightarrow> 'c::linorder) \<Rightarrow> EventRankingData list \<Rightarrow> string
    \<Rightarrow> string \<Rightarrow> string \<Rightarrow> error + OptimizationResult" where
  "advanced_core collate allRankings teamName gender' grade' =
     (let likelyEntries = predictCompetition allRankings
      in case fold_sum (advanced_processAthlete allRankings)
                (advanced_athleteOptions teamName likelyEntries allRankings) ([], []) of
           Inl e \<Rightarrow> Inl e
         | Inr (entries, eventEntries) \<Rightarrow>
             Inr (finishResult collate teamName gender' grade' entries eventEntries))"

definition advanced_optimize :: "(string \<Rightarrow> 'c::linorder) \<Rightarrow> filesystem \<Rightarrow> string \<Rightarrow> string
    \<Rightarrow> string \<Rightarrow> string \<Rightarrow> string \<Rightarrow> error + OptimizationResult" where
  "advanced_optimize collate fs rankingsDir season teamName gender' grade' =
     (case loadRankings fs rankingsDir season gender' grade' of
        Inl e \<Rightarrow> Inl e
      | Inr allRankings \<Rightarrow> advanced_core collate allRankings teamName gender' grade')"

section \<open>Auxiliary notions\<close>

subsection \<open>Notions the claims are stated with\<close>



text \<open>The test \<open>athleteEvents && athleteEvents.has(event)\<close> of \<open>calculateProjectedPlace\<close>:
  membership of an athlete in the likely-competing set of an event.\<close>

definition likelyCompeting :: "(string \<times> string set) list \<Rightarrow> string \<Rightarrow> string \<Rightarrow> bool" where
  "likelyCompeting likelyEntries event athlete =
     (case map_of likelyEntries athlete of
        Some athleteEvents \<Rightarrow> event \<in> athleteEvents
      | None \<Rightarrow> False)"

text \<open>The result with no entries.\<close>

definition emptyResult :: "string \<Rightarrow> string \<Rightarrow> string \<Rightarrow> OptimizationResult" where
  "emptyResult teamName gender' grade' =
     \<lparr>school = teamName, gender = gender', grade = grade', totalProjectedPoints = 0,
      athleteEntries = [], eventBreakdown = []\<rparr>"

text \<open>The specification's likely entrants of a team in a category: the first
  \<open>min(3, n)\<close> of the team's \<open>n\<close> athletes, in the order of the category's rows.\<close>

definition teamTopThree :: "RankingRow list \<Rightarrow> string \<Rightarrow> string list" where
  "teamTopThree rows team =
     (let athletes = map rk_athlete (filter (\<lambda>r. rk_team r = team) rows)
      in take (min 3 (length athletes)) athletes)"

text \<open>The specification's likely-competing set of an event code: the likely entrants of every
  team in every loaded category with that code.\<close>

definition likelySetSpec :: "EventRankingData list \<Rightarrow> string \<Rightarrow> string set" where
  "likelySetSpec allRankings event =
     (\<Union>c\<in>{c \<in> set allRankings. erd_eventAbbr c = event}.
        \<Union>team\<in>rk_team ` set (erd_rankings c). set (teamTopThree (erd_rankings c) team))"

subsection \<open>Notions the proofs use\<close>

text \<open>What the simple optimizer selects from an athlete's scores.\<close>

definition simple_selection :: "(string \<times> Score) list \<Rightarrow> string list" where
  "simple_selection eventScores = simple_greedy (js_sort simple_compare eventScores) []"

text \<open>The points stored for an event, 0 for an event without score.\<close>

definition pointsOf :: "(string \<times> Score) list \<Rightarrow> string \<Rightarrow> int" where
  "pointsOf eventScores event = (case map_of eventScores event of Some s \<Rightarrow> sc_points s | None \<Rightarrow> 0)"

text \<open>The entry the simple optimizer builds for an athlete.\<close>

definition simple_entry :: "string \<times> (string \<times> Score) list \<Rightarrow> AthleteEntry" where
  "simple_entry ath = (case ath of (athlete, eventScores) \<Rightarrow>
     \<lparr>ae_athlete = athlete, ae_firstName = firstNameOf athlete, ae_lastName = lastNameOf athlete,
      ae_events = simple_selection eventScores,
      ae_projectedPoints = sum_list (map (pointsOf eventScores) (simple_selection eventScores))\<rparr>)"

text \<open>The entries of the athletes with a non-empty selection, in the order of the athlete map.\<close>

definition simple_entries :: "(string \<times> (string \<times> Score) list) list \<Rightarrow> AthleteEntry list" where
  "simple_entries aths = map simple_entry (filter (\<lambda>p. simple_selection (snd p) \<noteq> []) aths)"

text \<open>What the advanced optimizer selects from an athlete's options.\<close>

definition advanced_selection :: "AthleteEventScore list \<Rightarrow> string list \<times> AthleteEventScore list" where
  "advanced_selection options = advanced_greedy (js_sort advanced_compare options) ([], [])"

text \<open>The entry the advanced optimizer builds for an athlete.\<close>

definition advanced_entry :: "string \<times> AthleteEventScore list \<Rightarrow> AthleteEntry" where
  "advanced_entry ath = (case ath of (athlete, options) \<Rightarrow>
     \<lparr>ae_athlete = athlete, ae_firstName = firstNameOf athlete, ae_lastName = lastNameOf athlete,
      ae_events = fst (advanced_selection options),
      ae_projectedPoints = sum_list (map aes_points (snd (advanced_selection options)))\<rparr>)"

definition advanced_entries :: "(string \<times> AthleteEventScore list) list \<Rightarrow> AthleteEntry list" where
  "advanced_entries aths = map advanced_entry (filter (\<lambda>p. fst (advanced_selection (snd p)) \<noteq> []) aths)"

text \<open>The sum of the points of all rows of the breakdown map.\<close>

definition rowsTotal :: "(string \<times> EventEntry) list \<Rightarrow> int" where
  "rowsTotal eventEntries = (\<Sum>p\<leftarrow>eventEntries. sum_list (map ea_projectedPoints (ee_athletes (snd p))))"

text \<open>The rows of the target team with their categories, in the order the loops visit them.\<close>

definition teamRows :: "string \<Rightarrow> EventRankingData list \<Rightarrow> (EventRankingData \<times> RankingRow) list" where
  "teamRows teamName allRankings =
     concat (map (\<lambda>c. map (Pair c) (filter (\<lambda>r. rk_team r = teamName) (erd_rankings c))) allRankings)"

text \<open>The effect of one such row on \<open>athleteScores\<close>.\<close>

definition simple_step :: "EventRankingData \<times> RankingRow
    \<Rightarrow> (string \<times> (string \<times> Score) list) list \<Rightarrow> (string \<times> (string \<times> Score) list) list" where
  "simple_step p = jsmap_upsert (rk_athlete (snd p)) []
      (jsmap_upsert (erd_eventAbbr (fst p))
         \<lparr>sc_rank = rk_rank (snd p), sc_points = points_lookup (rk_rank (snd p))\<rparr>
         (\<lambda>_. \<lparr>sc_rank = rk_rank (snd p), sc_points = points_lookup (rk_rank (snd p))\<rparr>))"

text \<open>The option the advanced optimizer records for one such row.\<close>

definition advanced_score :: "string \<Rightarrow> (string \<times> string set) list
    \<Rightarrow> EventRankingData \<times> RankingRow \<Rightarrow> AthleteEventScore" where
  "advanced_score teamName likelyEntries p =
     \<lparr>aes_athlete = rk_athlete (snd p), aes_team = teamName,
      aes_event = erd_eventAbbr (fst p), aes_rank = rk_rank (snd p),
      aes_projectedPlace =
        calculateProjectedPlace (rk_athlete (snd p)) (erd_eventAbbr (fst p)) (rk_rank (snd p))
          likelyEntries (fst p),
      aes_points = points_lookup
        (calculateProjectedPlace (rk_athlete (snd p)) (erd_eventAbbr (fst p)) (rk_rank (snd p))
          likelyEntries (fst p))\<rparr>"

text \<open>The effect of one such row on \<open>athleteOptions\<close>.\<close>

definition advanced_step :: "string \<Rightarrow> (string \<times> string set) list \<Rightarrow> EventRankingData \<times> RankingRow
    \<Rightarrow> (string \<times> AthleteEventScore list) list \<Rightarrow> (string \<times> AthleteEventScore list) list" where
  "advanced_step teamName likelyEntries p =
     jsmap_upsert (rk_athlete (snd p)) [] (\<lambda>options. options @ [advanced_score teamName likelyEntries p])"

text \<open>The (event, athlete) pairs that \<open>predictCompetition\<close> marks, in the order of its loops.\<close>

definition likelyPairs :: "EventRankingData list \<Rightarrow> (string \<times> string) list" where
  "likelyPairs allRankings =
     concat (map (\<lambda>c. concat (map (\<lambda>teamEntry.
                 map (Pair (erd_eventAbbr c))
                   (take (min 3 (length (snd teamEntry))) (snd teamEntry)))
               (teamAthletesOf (erd_rankings c))))
       allRankings)"

section \<open>A worked example\<close>

text \<open>A rankings directory of one season: five event files with a category for the
  eighth-grade boys, and a file that is not a ranking file. Team \<open>T\<close> has two athletes.\<close>

definition exRow :: "int \<Rightarrow> string \<Rightarrow> string \<Rightarrow> RankingRow" where
  "exRow r a t = \<lparr>rk_rank = r, rk_athlete = a, rk_team = t\<rparr>"

definition exFile :: "string \<Rightarrow> string \<Rightarrow> RankingRow list \<Rightarrow> RankingFile" where
  "exFile abbr name rows = \<lparr>rf_eventAbbr = abbr, rf_event = name, rf_categories =
     [\<lparr>cat_gender = ''Female'', cat_grade = ''8th grade'', cat_rankings = []\<rparr>,
      \<lparr>cat_gender = ''Male'', cat_grade = ''8th grade'', cat_rankings = rows\<rparr>]\<rparr>"

definition exDir :: "(string \<times> RankingFile option) list" where
  "exDir =
    [(''event_rankings_2025_1600.json'', Some (exFile ''1600'' ''1600 Meter Run''
        [exRow 1 ''Zed Young'' ''T'', exRow 2 ''Bob Bee'' ''Q''])),
     (''notes.txt'', None),
     (''event_rankings_2025_800.json'', Some (exFile ''800'' ''800 Meter Run''
        [exRow 1 ''Zed Young'' ''T''])),
     (''event_rankings_2025_200.json'', Some (exFile ''200'' ''200 Meter Dash''
        [exRow 1 ''Zed Young'' ''T'', exRow 2 ''Amy Ach'' ''T''])),
     (''event_rankings_2025_400.json'', Some (exFile ''400'' ''400 Meter Dash''
        [exRow 1 ''Bob Bee'' ''Q'', exRow 2 ''Zed Young'' ''T''])),
     (''event_rankings_2025_LJ.json'', Some (exFile ''LJ'' ''Long Jump''
        [exRow 1 ''Amy Ach'' ''T'', exRow 2 ''Cy Dee'' ''Q'', exRow 3 ''Dan Eff'' ''Q'',
         exRow 4 ''Eli Gee'' ''Q'', exRow 5 ''Fay Haw'' ''Q'', exRow 6 ''Zed Young'' ''T'']))]"

definition exFs :: filesystem where
  "exFs = (\<lambda>p. if p = ''rankings'' then Some (Directory exDir) else None)"

text \<open>A collation key for the example: the code points of the string.\<close>

definition codepoints :: "string \<Rightarrow> nat list" where
  "codepoints s = map of_char s"

text \<open>What \<open>loadRankings\<close> returns for the eighth-grade boys, and the two results.\<close>

definition exRankings :: "EventRankingData list" where
  "exRankings =
    [\<lparr>erd_eventAbbr = ''1600'', erd_eventName = ''1600 Meter Run'', erd_gender = ''Male'', erd_grade = ''8th grade'',
      erd_rankings = [exRow 1 ''Zed Young'' ''T'', exRow 2 ''Bob Bee'' ''Q'']\<rparr>,
     \<lparr>erd_eventAbbr = ''800'', erd_eventName = ''800 Meter Run'', erd_gender = ''Male'', erd_grade = ''8th grade'',
      erd_rankings = [exRow 1 ''Zed Young'' ''T'']\<rparr>,
     \<lparr>erd_eventAbbr = ''200'', erd_eventName = ''200 Meter Dash'', erd_gender = ''Male'', erd_grade = ''8th grade'',
      erd_rankings = [exRow 1 ''Zed Young'' ''T'', exRow 2 ''Amy Ach'' ''T'']\<rparr>,
     \<lparr>erd_eventAbbr = ''400'', erd_eventName = ''400 Meter Dash'', erd_gender = ''Male'', erd_grade = ''8th grade'',
      erd_rankings = [exRow 1 ''Bob Bee'' ''Q'', exRow 2 ''Zed Young'' ''T'']\<rparr>,
     \<lparr>erd_eventAbbr = ''LJ'', erd_eventName = ''Long Jump'', erd_gender = ''Male'', erd_grade = ''8th grade'',
      erd_rankings = [exRow 1 ''Amy Ach'' ''T'', exRow 2 ''Cy Dee'' ''Q'', exRow 3 ''Dan Eff'' ''Q'',
         exRow 4 ''Eli Gee'' ''Q'', exRow 5 ''Fay Haw'' ''Q'', exRow 6 ''Zed Young'' ''T'']\<rparr>]"

definition exSimple :: OptimizationResult where
  "exSimple = \<lparr>school = ''T'', gender = ''Male'', grade = ''8th grade'',
        totalProjectedPoints = 38,
        athleteEntries =
          [\<lparr>ae_athlete = ''Zed Young'', ae_firstName = ''Zed'', ae_lastName = ''Young'',
              ae_events = [''1600'', ''800'', ''200'', ''LJ''], ae_projectedPoints = 24\<rparr>,
           \<lparr>ae_athlete = ''Amy Ach'', ae_firstName = ''Amy'', ae_lastName = ''Ach'',
              ae_events = [''LJ'', ''200''], ae_projectedPoints = 14\<rparr>],
        eventBreakdown =
          [\<lparr>ee_event = ''1600'', ee_eventName = ''1600 Meter Run'',
              ee_athletes =
                [\<lparr>ea_athlete = ''Zed Young'', ea_projectedPlace = 1,
                    ea_projectedPoints = 8, ea_currentRank = 1\<rparr>]\<rparr>,
           \<lparr>ee_event = ''200'', ee_eventName = ''200 Meter Dash'',
              ee_athletes =
                [\<lparr>ea_athlete = ''Zed Young'', ea_projectedPlace = 1,
                    ea_projectedPoints = 8, ea_currentRank = 1\<rparr>,
                 \<lparr>ea_athlete = ''Amy Ach'', ea_projectedPlace = 2,
                    ea_projectedPoints = 6, ea_currentRank = 2\<rparr>]\<rparr>,
           \<lparr>ee_event = ''800'', ee_eventName = ''800 Meter Run'',
              ee_athletes =
                [\<lparr>ea_athlete = ''Zed Young'', ea_projectedPlace = 1,
                    ea_projectedPoints = 8, ea_currentRank = 1\<rparr>]\<rparr>,
           \<lparr>ee_event = ''LJ'', ee_eventName = ''Long Jump'',
              ee_athletes =
                [\<lparr>ea_athlete = ''Amy Ach'', ea_projectedPlace = 1,
                    ea_projectedPoints = 8, ea_currentRank = 1\<rparr>,
                 \<lparr>ea_athlete = ''Zed Young'', ea_projectedPlace = 6,
                    ea_projectedPoints = 0, ea_currentRank = 6\<rparr>]\<rparr>]\<rparr>"

definition exAdvanced :: OptimizationResult where
  "exAdvanced = \<lparr>school = ''T'', gender = ''Male'', grade = ''8th grade'',
        totalProjectedPoints = 39,
        athleteEntries =
          [\<lparr>ae_athlete = ''Zed Young'', ae_firstName = ''Zed'', ae_lastName = ''Young'',
              ae_events = [''1600'', ''800'', ''200'', ''LJ''], ae_projectedPoints = 25\<rparr>,
           \<lparr>ae_athlete = ''Amy Ach'', ae_firstName = ''Amy'', ae_lastName = ''Ach'',
              ae_events = [''LJ'', ''200''], ae_projectedPoints = 14\<rparr>],
        eventBreakdown =
          [\<lparr>ee_event = ''1600'', ee_eventName = ''1600 Meter Run'',
              ee_athletes =
                [\<lparr>ea_athlete = ''Zed Young'', ea_projectedPlace = 1,
                    ea_projectedPoints = 8, ea_currentRank = 1\<rparr>]\<rparr>,
           \<lparr>ee_event = ''200'', ee_eventName = ''200 Meter Dash'',
              ee_athletes =
                [\<lparr>ea_athlete = ''Zed Young'', ea_projectedPlace = 1,
                    ea_projectedPoints = 8, ea_currentRank = 1\<rparr>,
                 \<lparr>ea_athlete = ''Amy Ach'', ea_projectedPlace = 2,
                    ea_projectedPoints = 6, ea_currentRank = 2\<rparr>]\<rparr>,
           \<lparr>ee_event = ''800'', ee_eventName = ''800 Meter Run'',
              ee_athletes =
                [\<lparr>ea_athlete = ''Zed Young'', ea_projectedPlace = 1,
                    ea_projectedPoints = 8, ea_currentRank = 1\<rparr>]\<rparr>,
           \<lparr>ee_event = ''LJ'', ee_eventName = ''Long Jump'',
              ee_athletes =
                [\<lparr>ea_athlete = ''Amy Ach'', ea_projectedPlace = 1,
                    ea_projectedPoints = 8, ea_currentRank = 1\<rparr>,
                 \<lparr>ea_athlete = ''Zed Young'', ea_projectedPlace = 5,
                    ea_projectedPoints = 1, ea_currentRank = 6\<rparr>]\<rparr>]\<rparr>"

text \<open>The scenarios of the specification: one athlete of team \<open>T\<close> with the given rank in
  each event, and the category of scenario D.\<close>

definition scenario :: "string \<Rightarrow> (string \<times> int) list \<Rightarrow> EventRankingData list" where
  "scenario athlete ranks =
     map (\<lambda>(event, r). \<lparr>erd_eventAbbr = event, erd_eventName = event, erd_gender = ''Male'',
                          erd_grade = ''8th grade'', erd_rankings = [exRow r athlete ''T'']\<rparr>) ranks"

definition scenarioD :: EventRankingData where
  "scenarioD = \<lparr>erd_eventAbbr = ''100'', erd_eventName = ''100 Meter Dash'', erd_gender = ''Male'',
     erd_grade = ''8th grade'',
     erd_rankings = [exRow 1 ''A'' ''P'', exRow 2 ''B'' ''P'', exRow 3 ''C'' ''Q'', exRow 4 ''D'' ''Q'',
                     exRow 5 ''E'' ''R'']\<rparr>"

definition selections :: "error + OptimizationResult \<Rightarrow> error + (string list \<times> int) list" where
  "selections res = map_sum id (\<lambda>r. map (\<lambda>e. (ae_events e, ae_projectedPoints e)) (athleteEntries r)) res"

section \<open>Lemmas\<close>

subsection \<open>The sort\<close>

lemma set_js_insort: "set (js_insort cmp x xs) = insert x (set xs)"
  by (induction xs) auto

lemma length_js_insort: "length (js_insort cmp x xs) = Suc (length xs)"
  by (induction xs) auto

lemma sum_list_js_insort:
  "sum_list (map (g::'a \<Rightarrow> int) (js_insort cmp x xs)) = g x + sum_list (map g xs)"
  by (induction xs) auto

lemma set_js_sort: "set (js_sort cmp xs) = set xs"
  by (induction xs) (auto simp: js_sort_def set_js_insort)

lemma length_js_sort: "length (js_sort cmp xs) = length xs"
  by (induction xs) (auto simp: js_sort_def length_js_insort)

lemma js_sort_Nil: "js_sort cmp [] = []"
  by (simp add: js_sort_def)

lemma js_insort_key:
  assumes "\<And>a b. (cmp a b \<le> 0) = (f a \<le> f b)"
  shows "js_insort cmp x xs = insort_key f x xs"
  by (induction xs) (auto simp: assms)

lemma js_sort_key:
  assumes "\<And>a b. (cmp a b \<le> 0) = (f a \<le> f b)"
  shows "js_sort cmp xs = sort_key f xs"
  by (induction xs) (simp_all add: js_sort_def js_insort_key[OF assms])

lemma sum_list_js_sort: "sum_list (map (g::'a \<Rightarrow> int) (js_sort cmp xs)) = sum_list (map g xs)"
  by (induction xs) (simp_all add: js_sort_def sum_list_js_insort)

subsection \<open>Maps in insertion order\<close>

lemma map_of_jsmap_upsert:
  "map_of (jsmap_upsert k d f m) k' =
     (if k' = k then Some (f (case map_of m k of Some v \<Rightarrow> v | None \<Rightarrow> d)) else map_of m k')"
  by (induction m) auto

lemma keys_jsmap_upsert:
  "map fst (jsmap_upsert k d f m) = (if k \<in> fst ` set m then map fst m else map fst m @ [k])"
  by (induction m) force+

lemma map_of_jsmap_set:
  "map_of (jsmap_set k v m) k' = (if k' = k then Some v else map_of m k')"
  by (induction m) auto

lemma keys_jsmap_set:
  "map fst (jsmap_set k v m) = (if k \<in> fst ` set m then map fst m else map fst m @ [k])"
  by (induction m) force+

lemma map_of_jsmap_modify:
  "map_of (jsmap_modify k f m) k' =
     (if k' = k then map_option f (map_of m k) else map_of m k')"
  by (induction m) auto

lemma keys_jsmap_modify: "map fst (jsmap_modify k f m) = map fst m"
  by (induction m) auto

lemma jsmap_has_iff: "jsmap_has m k = (k \<in> fst ` set m)"
  by (simp add: jsmap_has_def map_of_eq_None_iff)

lemma sum_jsmap_upsert:
  fixes g :: "'v \<Rightarrow> int"
  shows "(\<Sum>p\<leftarrow>jsmap_upsert k d f m. g (snd p)) =
     (\<Sum>p\<leftarrow>m. g (snd p)) + (case map_of m k of Some v \<Rightarrow> g (f v) - g v | None \<Rightarrow> g (f d))"
  by (induction m) auto

lemma sum_jsmap_modify:
  fixes g :: "'v \<Rightarrow> int"
  shows "(\<Sum>p\<leftarrow>jsmap_modify k f m. g (snd p)) =
     (\<Sum>p\<leftarrow>m. g (snd p)) + (case map_of m k of Some v \<Rightarrow> g (f v) - g v | None \<Rightarrow> 0)"
  by (induction m) auto

subsection \<open>Loops that may throw\<close>

lemma fold_sum_invariant:
  assumes "fold_sum f xs s = Inr s'" and "P s"
    and "\<And>x t t'. x \<in> set xs \<Longrightarrow> P t \<Longrightarrow> f x t = Inr t' \<Longrightarrow> P t'"
  shows "P s'"
  using assms
proof (induction xs arbitrary: s)
  case Nil then show ?case by simp
next
  case (Cons x xs)
  from Cons.prems(1) obtain t where t: "f x s = Inr t" "fold_sum f xs t = Inr s'"
    by (auto split: sum.splits)
  have "P t" using Cons.prems(3)[of x s t] Cons.prems(2) t(1) by simp
  show ?case by (rule Cons.IH[OF t(2) \<open>P t\<close>]) (use Cons.prems(3) in auto)
qed

lemma fold_sum_total:
  assumes "P s"
    and "\<And>x t. x \<in> set xs \<Longrightarrow> P t \<Longrightarrow> \<exists>t'. f x t = Inr t' \<and> P t'"
  shows "\<exists>s'. fold_sum f xs s = Inr s'"
  using assms
proof (induction xs arbitrary: s)
  case Nil then show ?case by simp
next
  case (Cons x xs)
  from Cons.prems(2)[of x s] Cons.prems(1) obtain t' where t: "f x s = Inr t'" "P t'" by auto
  have "\<exists>s'. fold_sum f xs t' = Inr s'"
    by (rule Cons.IH[OF t(2)]) (use Cons.prems(2) in auto)
  with t show ?case by simp
qed

lemma foldl_sum_list: "foldl (\<lambda>acc a. acc + g a) (z::int) xs = z + sum_list (map g xs)"
  by (induction xs arbitrary: z) auto

subsection \<open>The combination predicate and the greedy loops\<close>

lemma valid_single: "simple_isValidCombination [e]"
  by (auto simp: simple_isValidCombination_def)

lemma valid_eq: "advanced_isValidCombination events = simple_isValidCombination events"
  by (simp add: advanced_isValidCombination_def simple_isValidCombination_def)

lemma filter_filter_other: "filter (\<lambda>e. e \<noteq> ''1600'' \<and> e \<noteq> ''800'') (filter isTrackEvent events)
   = filter (\<lambda>e. isTrackEvent e \<and> e \<noteq> ''1600'' \<and> e \<noteq> ''800'') events"
  by (simp add: conj_commute)

lemma valid_props:
  assumes "simple_isValidCombination events"
  shows "length events \<le> 4"
    and "''1600'' \<in> set events \<Longrightarrow> ''800'' \<in> set events \<Longrightarrow>
         length (filter (\<lambda>e. isTrackEvent e \<and> e \<noteq> ''1600'' \<and> e \<noteq> ''800'') events) \<le> 1"
    and "''1600'' \<in> set events \<Longrightarrow> ''800'' \<in> set events \<Longrightarrow> length events = 4 \<Longrightarrow>
         \<exists>e\<in>set events. isFieldEvent e"
proof -
  show "length events \<le> 4" using assms
    by (auto simp: simple_isValidCombination_def split: if_splits)
  show "length (filter (\<lambda>e. isTrackEvent e \<and> e \<noteq> ''1600'' \<and> e \<noteq> ''800'') events) \<le> 1"
    if "''1600'' \<in> set events" "''800'' \<in> set events"
    using assms that
    by (auto simp: simple_isValidCombination_def Let_def filter_filter_other split: if_splits)
  show "\<exists>e\<in>set events. isFieldEvent e"
    if "''1600'' \<in> set events" "''800'' \<in> set events" "length events = 4"
  proof -
    from assms that have "filter isFieldEvent events \<noteq> []"
      by (auto simp: simple_isValidCombination_def Let_def split: if_splits)
    then show ?thesis by (auto simp: filter_empty_conv)
  qed
qed

lemma simple_greedy_valid:
  "sel = [] \<or> simple_isValidCombination sel \<Longrightarrow>
   simple_greedy cs sel = [] \<or> simple_isValidCombination (simple_greedy cs sel)"
  by (induction cs sel rule: simple_greedy.induct) (auto simp: Let_def)

lemma simple_greedy_subset: "set (simple_greedy cs sel) \<subseteq> set sel \<union> fst ` set cs"
  by (induction cs sel rule: simple_greedy.induct) (auto simp: Let_def)

lemma simple_greedy_length: "length sel \<le> length (simple_greedy cs sel)"
  by (induction cs sel rule: simple_greedy.induct) (auto simp: Let_def)

lemma simple_greedy_nonempty: "cs \<noteq> [] \<Longrightarrow> simple_greedy cs [] \<noteq> []"
proof (cases cs)
  case Nil then show "cs \<noteq> [] \<Longrightarrow> ?thesis" by simp
next
  case (Cons c rest)
  obtain e s where c: "c = (e, s)" by (cases c)
  have "simple_greedy cs [] = simple_greedy rest [e]"
    by (simp add: Cons c valid_single)
  moreover have "length [e] \<le> length (simple_greedy rest [e])" by (rule simple_greedy_length)
  ultimately show ?thesis by auto
qed

lemma simple_selection_valid:
  "simple_selection sc = [] \<or> simple_isValidCombination (simple_selection sc)"
  unfolding simple_selection_def by (rule simple_greedy_valid) simp

lemma simple_selection_subset: "set (simple_selection sc) \<subseteq> fst ` set sc"
  using simple_greedy_subset[of "js_sort simple_compare sc" "[]"]
  by (simp add: simple_selection_def set_js_sort)

lemma simple_selection_nonempty: "sc \<noteq> [] \<Longrightarrow> simple_selection sc \<noteq> []"
  unfolding simple_selection_def
  by (rule simple_greedy_nonempty) (metis length_js_sort length_0_conv)

lemma simple_selection_empty: "simple_selection [] = []"
  by (simp add: simple_selection_def js_sort_Nil)

lemma advanced_greedy_valid:
  "fst sel = [] \<or> simple_isValidCombination (fst sel) \<Longrightarrow>
   fst (advanced_greedy cs sel) = [] \<or> simple_isValidCombination (fst (advanced_greedy cs sel))"
  by (induction cs sel rule: advanced_greedy.induct) (auto simp: Let_def valid_eq)


lemma advanced_greedy_subset: "set (snd (advanced_greedy cs sel)) \<subseteq> set (snd sel) \<union> set cs"
  by (induction cs sel rule: advanced_greedy.induct) (auto simp: Let_def)

lemma advanced_greedy_length: "length (fst sel) \<le> length (fst (advanced_greedy cs sel))"
  by (induction cs sel rule: advanced_greedy.induct) (auto simp: Let_def)

lemma advanced_greedy_nonempty: "cs \<noteq> [] \<Longrightarrow> fst (advanced_greedy cs ([], [])) \<noteq> []"
proof (cases cs)
  case Nil then show "cs \<noteq> [] \<Longrightarrow> ?thesis" by simp
next
  case (Cons c rest)
  have "advanced_greedy cs ([], []) = advanced_greedy rest ([aes_event c], [c])"
    by (simp add: Cons valid_single valid_eq)
  moreover have "length (fst ([aes_event c], [c])) \<le> length (fst (advanced_greedy rest ([aes_event c], [c])))"
    by (rule advanced_greedy_length)
  ultimately show ?thesis by auto
qed

lemma advanced_selection_valid:
  "fst (advanced_selection os) = [] \<or> simple_isValidCombination (fst (advanced_selection os))"
  unfolding advanced_selection_def by (rule advanced_greedy_valid) simp


lemma advanced_selection_subset: "set (snd (advanced_selection os)) \<subseteq> set os"
  using advanced_greedy_subset[of "js_sort advanced_compare os" "([], [])"]
  by (simp add: advanced_selection_def set_js_sort)

lemma advanced_selection_nonempty: "os \<noteq> [] \<Longrightarrow> fst (advanced_selection os) \<noteq> []"
  unfolding advanced_selection_def
  by (rule advanced_greedy_nonempty) (metis length_js_sort length_0_conv)

lemma advanced_selection_empty: "advanced_selection [] = ([], [])"
  by (simp add: advanced_selection_def js_sort_Nil)

subsection \<open>Processing one athlete, simple optimizer\<close>

lemma simple_totalPoints_Inr:
  "simple_totalPoints sc evs z = Inr t \<Longrightarrow> t = z + sum_list (map (pointsOf sc) evs)"
proof (induction evs arbitrary: z)
  case Nil then show ?case by simp
next
  case (Cons e evs)
  from Cons.prems obtain s where s: "map_of sc e = Some s"
    and r: "simple_totalPoints sc evs (z + sc_points s) = Inr t"
    by (auto split: option.splits)
  from Cons.IH[OF r] s show ?case by (simp add: pointsOf_def)
qed

lemma simple_totalPoints_total:
  "set evs \<subseteq> fst ` set sc \<Longrightarrow> \<exists>t. simple_totalPoints sc evs z = Inr t"
proof (induction evs arbitrary: z)
  case Nil then show ?case by simp
next
  case (Cons e evs)
  then have "e \<in> fst ` set sc" by simp
  then obtain s where "map_of sc e = Some s"
    by (metis map_of_eq_None_iff not_None_eq)
  with Cons show ?case by simp
qed

lemma rowsTotal_modify:
  assumes "jsmap_has ee k"
  shows "rowsTotal (jsmap_modify k (\<lambda>entry. entry\<lparr>ee_athletes := ee_athletes entry @ [r]\<rparr>) ee)
         = rowsTotal ee + ea_projectedPoints r"
proof -
  from assms obtain v where "map_of ee k = Some v" by (auto simp: jsmap_has_def)
  then show ?thesis
    unfolding rowsTotal_def
    by (subst sum_jsmap_modify) simp
qed

lemma rowsTotal_upsert:
  assumes "\<not> jsmap_has ee k" and "ee_athletes d = []"
  shows "rowsTotal (jsmap_upsert k d (\<lambda>entry. entry\<lparr>ee_athletes := ee_athletes entry @ [r]\<rparr>) ee)
         = rowsTotal ee + ea_projectedPoints r"
proof -
  from assms have "map_of ee k = None" by (auto simp: jsmap_has_def)
  then show ?thesis
    unfolding rowsTotal_def using assms(2)
    by (subst sum_jsmap_upsert) simp
qed

lemma simple_addEvent_rows:
  "simple_addEvent R a sc e ee = Inr ee' \<Longrightarrow> rowsTotal ee' = rowsTotal ee + pointsOf sc e"
  by (auto simp: simple_addEvent_def Let_def pointsOf_def rowsTotal_modify rowsTotal_upsert
      split: option.splits if_splits)

lemma simple_addEvents_rows:
  "fold_sum (simple_addEvent R a sc) evs ee = Inr ee' \<Longrightarrow>
   rowsTotal ee' = rowsTotal ee + sum_list (map (pointsOf sc) evs)"
proof (induction evs arbitrary: ee)
  case Nil then show ?case by simp
next
  case (Cons e evs)
  from Cons.prems obtain ee1 where s: "simple_addEvent R a sc e ee = Inr ee1"
    and r: "fold_sum (simple_addEvent R a sc) evs ee1 = Inr ee'"
    by (auto split: sum.splits)
  show ?case using Cons.IH[OF r] simple_addEvent_rows[OF s] by simp
qed

lemma simple_addEvent_total:
  assumes "e \<in> fst ` set sc" and "e \<in> erd_eventAbbr ` set R"
  shows "\<exists>ee'. simple_addEvent R a sc e ee = Inr ee'"
proof -
  from assms(1) obtain s where s: "map_of sc e = Some s"
    by (metis map_of_eq_None_iff not_None_eq)
  from assms(2) obtain d where d: "find (\<lambda>c. erd_eventAbbr c = e) R = Some d"
    by (cases "find (\<lambda>c. erd_eventAbbr c = e) R") (auto simp: find_None_iff)
  show ?thesis by (simp add: simple_addEvent_def s d Let_def)
qed

lemma simple_addEvents_total:
  assumes "set evs \<subseteq> fst ` set sc" and "set evs \<subseteq> erd_eventAbbr ` set R"
  shows "\<exists>ee'. fold_sum (simple_addEvent R a sc) evs ee = Inr ee'"
proof (rule fold_sum_total[where P = "\<lambda>_. True"])
  show True ..
next
  fix x t assume "x \<in> set evs"
  with assms have "x \<in> fst ` set sc" "x \<in> erd_eventAbbr ` set R" by auto
  from simple_addEvent_total[OF this, of a t]
  show "\<exists>t'. simple_addEvent R a sc x t = Inr t' \<and> True" by simp
qed

lemma simple_processAthlete_Inr:
  assumes "simple_processAthlete R (a, sc) (es, ee) = Inr (es', ee')"
  shows "es' = es @ (if simple_selection sc = [] then [] else [simple_entry (a, sc)])"
    and "rowsTotal ee' = rowsTotal ee + sum_list (map (pointsOf sc) (simple_selection sc))"
proof -
  from assms obtain t where t: "simple_totalPoints sc (simple_selection sc) 0 = Inr t"
    by (auto simp: simple_processAthlete_def simple_selection_def Let_def split: sum.splits)
  then have tv: "t = sum_list (map (pointsOf sc) (simple_selection sc))"
    using simple_totalPoints_Inr by fastforce
  show "es' = es @ (if simple_selection sc = [] then [] else [simple_entry (a, sc)])"
    using assms t tv
    by (auto simp: simple_processAthlete_def simple_selection_def[symmetric] Let_def simple_entry_def
        split: sum.splits if_splits)
  show "rowsTotal ee' = rowsTotal ee + sum_list (map (pointsOf sc) (simple_selection sc))"
    using assms t
    by (auto simp: simple_processAthlete_def simple_selection_def[symmetric] Let_def
        dest: simple_addEvents_rows split: sum.splits if_splits)
qed

lemma simple_processAthlete_total:
  assumes "fst ` set sc \<subseteq> erd_eventAbbr ` set R"
  shows "\<exists>st'. simple_processAthlete R (a, sc) st = Inr st'"
proof -
  obtain es ee where st: "st = (es, ee)" by (cases st)
  have sub: "set (simple_selection sc) \<subseteq> fst ` set sc" by (rule simple_selection_subset)
  obtain t where t: "simple_totalPoints sc (simple_selection sc) 0 = Inr t"
    using simple_totalPoints_total[OF sub] by blast
  obtain ee' where e: "fold_sum (simple_addEvent R a sc) (simple_selection sc) ee = Inr ee'"
    using simple_addEvents_total[OF sub] sub assms by blast
  show ?thesis
    by (simp add: st simple_processAthlete_def simple_selection_def[symmetric] Let_def t e)
qed

lemma simple_athletes_Inr:
  "fold_sum (simple_processAthlete R) aths (es, ee) = Inr (es', ee') \<Longrightarrow>
   es' = es @ simple_entries aths \<and>
   rowsTotal ee' = rowsTotal ee + sum_list (map ae_projectedPoints (simple_entries aths))"
proof (induction aths arbitrary: es ee)
  case Nil then show ?case by (simp add: simple_entries_def)
next
  case (Cons p aths)
  obtain a sc where p: "p = (a, sc)" by (cases p)
  from Cons.prems obtain es1 ee1 where
    s: "simple_processAthlete R (a, sc) (es, ee) = Inr (es1, ee1)"
    and r: "fold_sum (simple_processAthlete R) aths (es1, ee1) = Inr (es', ee')"
    by (auto simp: p split: sum.splits)
  note h = simple_processAthlete_Inr[OF s] Cons.IH[OF r]
  show ?case
  proof (cases "simple_selection sc = []")
    case True
    with h show ?thesis by (simp add: simple_entries_def p)
  next
    case False
    with h show ?thesis by (simp add: simple_entries_def p simple_entry_def)
  qed
qed

lemma simple_athletes_total:
  assumes "\<forall>p\<in>set aths. fst ` set (snd p) \<subseteq> erd_eventAbbr ` set R"
  shows "\<exists>st'. fold_sum (simple_processAthlete R) aths st = Inr st'"
proof (rule fold_sum_total[where P = "\<lambda>_. True"])
  show True ..
next
  fix x t assume "x \<in> set aths"
  with assms have "fst ` set (snd x) \<subseteq> erd_eventAbbr ` set R" by blast
  from simple_processAthlete_total[OF this, of "fst x" t]
  show "\<exists>t'. simple_processAthlete R x t = Inr t' \<and> True" by simp
qed

subsection \<open>Processing one athlete, advanced optimizer\<close>

lemma advanced_addScore_rows:
  "advanced_addScore R a s ee = Inr ee' \<Longrightarrow> rowsTotal ee' = rowsTotal ee + aes_points s"
  by (auto simp: advanced_addScore_def Let_def rowsTotal_modify rowsTotal_upsert
      split: option.splits if_splits)

lemma advanced_addScores_rows:
  "fold_sum (advanced_addScore R a) ss ee = Inr ee' \<Longrightarrow>
   rowsTotal ee' = rowsTotal ee + sum_list (map aes_points ss)"
proof (induction ss arbitrary: ee)
  case Nil then show ?case by simp
next
  case (Cons s ss)
  from Cons.prems obtain ee1 where s: "advanced_addScore R a s ee = Inr ee1"
    and r: "fold_sum (advanced_addScore R a) ss ee1 = Inr ee'"
    by (auto split: sum.splits)
  show ?case using Cons.IH[OF r] advanced_addScore_rows[OF s] by simp
qed

lemma advanced_addScore_total:
  assumes "aes_event s \<in> erd_eventAbbr ` set R"
  shows "\<exists>ee'. advanced_addScore R a s ee = Inr ee'"
proof -
  from assms obtain d where d: "find (\<lambda>c. erd_eventAbbr c = aes_event s) R = Some d"
    by (cases "find (\<lambda>c. erd_eventAbbr c = aes_event s) R") (auto simp: find_None_iff)
  show ?thesis by (simp add: advanced_addScore_def d Let_def)
qed

lemma advanced_addScores_total:
  assumes "aes_event ` set ss \<subseteq> erd_eventAbbr ` set R"
  shows "\<exists>ee'. fold_sum (advanced_addScore R a) ss ee = Inr ee'"
proof (rule fold_sum_total[where P = "\<lambda>_. True"])
  show True ..
next
  fix x t assume "x \<in> set ss"
  with assms have "aes_event x \<in> erd_eventAbbr ` set R" by auto
  from advanced_addScore_total[OF this, of a t]
  show "\<exists>t'. advanced_addScore R a x t = Inr t' \<and> True" by simp
qed

lemma advanced_processAthlete_Inr:
  assumes "advanced_processAthlete R (a, os) (es, ee) = Inr (es', ee')"
  shows "es' = es @ (if fst (advanced_selection os) = [] then [] else [advanced_entry (a, os)])"
    and "rowsTotal ee' = rowsTotal ee +
           (if fst (advanced_selection os) = [] then 0
            else sum_list (map aes_points (snd (advanced_selection os))))"
proof -
  obtain se ss where sel: "advanced_selection os = (se, ss)" by (cases "advanced_selection os")
  show "es' = es @ (if fst (advanced_selection os) = [] then [] else [advanced_entry (a, os)])"
    using assms sel
    by (auto simp: advanced_processAthlete_def advanced_selection_def[symmetric] Let_def
        advanced_entry_def foldl_sum_list split: sum.splits if_splits)
  show "rowsTotal ee' = rowsTotal ee +
           (if fst (advanced_selection os) = [] then 0
            else sum_list (map aes_points (snd (advanced_selection os))))"
    using assms sel
    by (auto simp: advanced_processAthlete_def advanced_selection_def[symmetric] Let_def
        dest: advanced_addScores_rows split: sum.splits if_splits)
qed

lemma advanced_processAthlete_total:
  assumes "aes_event ` set os \<subseteq> erd_eventAbbr ` set R"
  shows "\<exists>st'. advanced_processAthlete R (a, os) st = Inr st'"
proof -
  obtain es ee where st: "st = (es, ee)" by (cases st)
  obtain se ss where sel: "advanced_selection os = (se, ss)" by (cases "advanced_selection os")
  have "set ss \<subseteq> set os" using advanced_selection_subset[of os] sel by simp
  with assms have "aes_event ` set ss \<subseteq> erd_eventAbbr ` set R" by blast
  then obtain ee' where e: "fold_sum (advanced_addScore R a) ss ee = Inr ee'"
    using advanced_addScores_total by blast
  show ?thesis
    by (simp add: st advanced_processAthlete_def advanced_selection_def[symmetric] Let_def sel e)
qed

lemma advanced_athletes_Inr:
  "fold_sum (advanced_processAthlete R) aths (es, ee) = Inr (es', ee') \<Longrightarrow>
   es' = es @ advanced_entries aths \<and>
   rowsTotal ee' = rowsTotal ee + sum_list (map ae_projectedPoints (advanced_entries aths))"
proof (induction aths arbitrary: es ee)
  case Nil then show ?case by (simp add: advanced_entries_def)
next
  case (Cons p aths)
  obtain a os where p: "p = (a, os)" by (cases p)
  from Cons.prems obtain es1 ee1 where
    s: "advanced_processAthlete R (a, os) (es, ee) = Inr (es1, ee1)"
    and r: "fold_sum (advanced_processAthlete R) aths (es1, ee1) = Inr (es', ee')"
    by (auto simp: p split: sum.splits)
  note h = advanced_processAthlete_Inr[OF s] Cons.IH[OF r]
  show ?case
  proof (cases "fst (advanced_selection os) = []")
    case True
    with h show ?thesis by (simp add: advanced_entries_def p)
  next
    case False
    with h show ?thesis by (simp add: advanced_entries_def p advanced_entry_def)
  qed
qed

lemma advanced_athletes_total:
  assumes "\<forall>p\<in>set aths. aes_event ` set (snd p) \<subseteq> erd_eventAbbr ` set R"
  shows "\<exists>st'. fold_sum (advanced_processAthlete R) aths st = Inr st'"
proof (rule fold_sum_total[where P = "\<lambda>_. True"])
  show True ..
next
  fix x t assume "x \<in> set aths"
  with assms have "aes_event ` set (snd x) \<subseteq> erd_eventAbbr ` set R" by blast
  from advanced_processAthlete_total[OF this, of "fst x" t]
  show "\<exists>t'. advanced_processAthlete R x t = Inr t' \<and> True" by simp
qed

subsection \<open>Collecting the candidates\<close>

lemma set_teamRows:
  "set (teamRows t R) = {(c, r). c \<in> set R \<and> r \<in> set (erd_rankings c) \<and> rk_team r = t}"
  by (auto simp: teamRows_def)

lemma filter_key_absent: "k \<notin> key ` set xs \<Longrightarrow> filter (\<lambda>y. key y = k) xs = []"
  by (induction xs) auto

lemma upsert_fold_map_of:
  "map_of (fold (\<lambda>x. jsmap_upsert (key x) d (g x)) xs []) k =
     (if k \<in> key ` set xs then Some (fold g (filter (\<lambda>x. key x = k) xs) d) else None)"
proof (induction xs arbitrary: k rule: rev_induct)
  case Nil then show ?case by simp
next
  case (snoc x xs)
  show ?case
    by (auto simp: map_of_jsmap_upsert snoc.IH filter_key_absent)
qed

lemma upsert_fold_distinct:
  "distinct (map fst (fold (\<lambda>x. jsmap_upsert (key x) d (g x)) xs []))"
  by (induction xs rule: rev_induct) (auto simp: keys_jsmap_upsert)

lemma upsert_fold_keys:
  "fst ` set (fold (\<lambda>x. jsmap_upsert (key x) d (g x)) xs []) = key ` set xs"
proof -
  let ?m = "fold (\<lambda>x. jsmap_upsert (key x) d (g x)) xs []"
  have "fst ` set ?m = dom (map_of ?m)" by (simp add: dom_map_of_conv_image_fst)
  also have "\<dots> = key ` set xs"
    by (auto simp: dom_def upsert_fold_map_of split: if_splits)
  finally show ?thesis .
qed

lemma upsert_fold_keys_gen:
  "fst ` set (fold (\<lambda>x. jsmap_upsert (key x) (d x) (g x)) xs m) = fst ` set m \<union> key ` set xs"
proof (induction xs arbitrary: m)
  case Nil then show ?case by simp
next
  case (Cons x xs)
  have "fst ` set (jsmap_upsert (key x) (d x) (g x) m) = insert (key x) (fst ` set m)"
    using arg_cong[OF keys_jsmap_upsert[of "key x" "d x" "g x" m], of set] by auto
  then show ?case by (simp add: Cons.IH)
qed

lemma upsert_fold_mem:
  assumes "(k, v) \<in> set (fold (\<lambda>x. jsmap_upsert (key x) d (g x)) xs [])"
  shows "k \<in> key ` set xs \<and> v = fold g (filter (\<lambda>x. key x = k) xs) d"
proof -
  from assms upsert_fold_distinct[of key d g xs]
  have "map_of (fold (\<lambda>x. jsmap_upsert (key x) d (g x)) xs []) k = Some v"
    by simp
  then show ?thesis by (auto simp: upsert_fold_map_of split: if_splits)
qed

lemma jsmap_set_upsert_m: "jsmap_set k v m = jsmap_upsert k v (\<lambda>_. v) m"
  by (induction m) auto

lemma jsmap_set_upsert: "jsmap_set k v = jsmap_upsert k v (\<lambda>_. v)"
  by (rule ext) (rule jsmap_set_upsert_m)

lemma fold_nested:
  "fold (\<lambda>x. fold h (F x)) xs m = fold h (concat (map F xs)) m"
  by (induction xs arbitrary: m) auto

lemma fold_snoc_map: "fold (\<lambda>x acc. acc @ [f x]) xs ys = ys @ map f xs"
  by (induction xs arbitrary: ys) auto

lemma fold_insert_set: "fold (\<lambda>x. insert (f x)) xs S = f ` set xs \<union> S"
  by (induction xs arbitrary: S) auto

lemma simple_inner_flat:
  "fold (simple_addRanking t (erd_eventAbbr c)) rows m =
   fold simple_step (map (Pair c) (filter (\<lambda>r. rk_team r = t) rows)) m"
  by (induction rows arbitrary: m)
     (auto simp: simple_addRanking_def simple_step_def Let_def jsmap_set_upsert)

lemma simple_athleteScores_flat:
  "simple_athleteScores t R = fold simple_step (teamRows t R) []"
proof -
  have "(\<lambda>c. fold (simple_addRanking t (erd_eventAbbr c)) (erd_rankings c)) =
        (\<lambda>c. fold simple_step (map (Pair c) (filter (\<lambda>r. rk_team r = t) (erd_rankings c))))"
    by (auto simp: fun_eq_iff simple_inner_flat)
  then show ?thesis
    by (simp add: simple_athleteScores_def teamRows_def fold_nested)
qed

lemma simple_athleteScores_distinct: "distinct (map fst (simple_athleteScores t R))"
  unfolding simple_athleteScores_flat simple_step_def by (rule upsert_fold_distinct)

lemma simple_athleteScores_keys:
  "fst ` set (simple_athleteScores t R) =
     {rk_athlete r | c r. c \<in> set R \<and> r \<in> set (erd_rankings c) \<and> rk_team r = t}"
  unfolding simple_athleteScores_flat simple_step_def upsert_fold_keys
  by (force simp: set_teamRows)

lemma simple_athleteScores_events:
  assumes "(a, sc) \<in> set (simple_athleteScores t R)"
  shows "fst ` set sc =
     {erd_eventAbbr c | c r. c \<in> set R \<and> r \<in> set (erd_rankings c) \<and> rk_team r = t \<and> rk_athlete r = a}"
proof -
  from upsert_fold_mem[OF assms[unfolded simple_athleteScores_flat simple_step_def]]
  have "sc = fold (\<lambda>p. jsmap_upsert (erd_eventAbbr (fst p))
         \<lparr>sc_rank = rk_rank (snd p), sc_points = points_lookup (rk_rank (snd p))\<rparr>
         (\<lambda>_. \<lparr>sc_rank = rk_rank (snd p), sc_points = points_lookup (rk_rank (snd p))\<rparr>))
        (filter (\<lambda>p. rk_athlete (snd p) = a) (teamRows t R)) []" by simp
  then have "fst ` set sc =
      (\<lambda>p. erd_eventAbbr (fst p)) ` set (filter (\<lambda>p. rk_athlete (snd p) = a) (teamRows t R))"
    by (simp only: upsert_fold_keys_gen) simp
  also have "\<dots> = {erd_eventAbbr c | c r. c \<in> set R \<and> r \<in> set (erd_rankings c) \<and> rk_team r = t \<and> rk_athlete r = a}"
    by (force simp: set_teamRows)
  finally show ?thesis .
qed

lemma advanced_inner_flat:
  "fold (advanced_addRanking t L c) rows m =
   fold (advanced_step t L) (map (Pair c) (filter (\<lambda>r. rk_team r = t) rows)) m"
  by (induction rows arbitrary: m)
     (auto simp: advanced_addRanking_def advanced_step_def advanced_score_def Let_def)

lemma advanced_athleteOptions_flat:
  "advanced_athleteOptions t L R = fold (advanced_step t L) (teamRows t R) []"
proof -
  have "(\<lambda>c. fold (advanced_addRanking t L c) (erd_rankings c)) =
        (\<lambda>c. fold (advanced_step t L) (map (Pair c) (filter (\<lambda>r. rk_team r = t) (erd_rankings c))))"
    by (auto simp: fun_eq_iff advanced_inner_flat)
  then show ?thesis
    by (simp add: advanced_athleteOptions_def teamRows_def fold_nested)
qed

lemma advanced_athleteOptions_distinct: "distinct (map fst (advanced_athleteOptions t L R))"
  unfolding advanced_athleteOptions_flat advanced_step_def by (rule upsert_fold_distinct)

lemma advanced_athleteOptions_keys:
  "fst ` set (advanced_athleteOptions t L R) =
     {rk_athlete r | c r. c \<in> set R \<and> r \<in> set (erd_rankings c) \<and> rk_team r = t}"
  unfolding advanced_athleteOptions_flat advanced_step_def upsert_fold_keys
  by (force simp: set_teamRows)

lemma advanced_athleteOptions_mem:
  assumes "(a, os) \<in> set (advanced_athleteOptions t L R)"
  shows "os = map (advanced_score t L) (filter (\<lambda>p. rk_athlete (snd p) = a) (teamRows t R))"
    and "os \<noteq> []"
proof -
  from upsert_fold_mem[OF assms[unfolded advanced_athleteOptions_flat advanced_step_def]]
  have k: "a \<in> (\<lambda>p. rk_athlete (snd p)) ` set (teamRows t R)"
    and v: "os = fold (\<lambda>p options. options @ [advanced_score t L p])
              (filter (\<lambda>p. rk_athlete (snd p) = a) (teamRows t R)) []"
    by simp_all
  from v show os: "os = map (advanced_score t L) (filter (\<lambda>p. rk_athlete (snd p) = a) (teamRows t R))"
    by (simp add: fold_snoc_map)
  from k have "filter (\<lambda>p. rk_athlete (snd p) = a) (teamRows t R) \<noteq> []"
    by (auto simp: filter_empty_conv)
  with os show "os \<noteq> []" by simp
qed

lemma advanced_athleteOptions_events:
  assumes "(a, os) \<in> set (advanced_athleteOptions t L R)"
  shows "aes_event ` set os =
     {erd_eventAbbr c | c r. c \<in> set R \<and> r \<in> set (erd_rankings c) \<and> rk_team r = t \<and> rk_athlete r = a}"
  unfolding advanced_athleteOptions_mem(1)[OF assms]
  by (force simp: set_teamRows advanced_score_def)

lemma simple_athleteScores_nonempty:
  assumes "(a, sc) \<in> set (simple_athleteScores t R)"
  shows "sc \<noteq> []"
proof -
  from assms have "a \<in> fst ` set (simple_athleteScores t R)" by force
  then obtain c r where "c \<in> set R" "r \<in> set (erd_rankings c)" "rk_team r = t" "rk_athlete r = a"
    unfolding simple_athleteScores_keys by auto
  then have "erd_eventAbbr c \<in> fst ` set sc"
    unfolding simple_athleteScores_events[OF assms] by auto
  then show ?thesis by auto
qed

subsection \<open>The assembled result\<close>

lemma distinct_map_js_insort:
  "distinct (map f (js_insort cmp x xs)) = (f x \<notin> f ` set xs \<and> distinct (map f xs))"
  by (induction xs) (auto simp: set_js_insort)

lemma distinct_map_js_sort: "distinct (map f (js_sort cmp xs)) = distinct (map f xs)"
  by (induction xs) (auto simp: js_sort_def distinct_map_js_insort set_js_sort[unfolded js_sort_def])

lemma finish_entries:
  "athleteEntries (finishResult collate t g gr es ee) =
     js_sort (\<lambda>a b. ae_projectedPoints b - ae_projectedPoints a) es"
  by (simp add: finishResult_def Let_def)

lemma finish_entries_set: "set (athleteEntries (finishResult collate t g gr es ee)) = set es"
  by (simp add: finish_entries set_js_sort)

lemma finish_total:
  "totalProjectedPoints (finishResult collate t g gr es ee) = sum_list (map ae_projectedPoints es)"
  by (simp add: finishResult_def Let_def foldl_sum_list sum_list_js_sort)

lemma finish_total_sorted:
  "totalProjectedPoints (finishResult collate t g gr es ee) =
     sum_list (map ae_projectedPoints (athleteEntries (finishResult collate t g gr es ee)))"
  by (simp add: finish_total finish_entries sum_list_js_sort)

lemma finish_breakdown:
  "eventBreakdown (finishResult collate t g gr es ee) =
     map (\<lambda>event. event\<lparr>ee_athletes :=
            js_sort (\<lambda>a b. ea_projectedPlace a - ea_projectedPlace b) (ee_athletes event)\<rparr>)
       (js_sort (\<lambda>a b. localeCompare collate (ee_event a) (ee_event b)) (map snd ee))"
  by (simp add: finishResult_def Let_def)

lemma finish_rows:
  "sum_list (map ea_projectedPoints
     (concat (map ee_athletes (eventBreakdown (finishResult collate t g gr es ee))))) = rowsTotal ee"
proof -
  let ?upd = "\<lambda>event. event\<lparr>ee_athletes :=
            js_sort (\<lambda>a b. ea_projectedPlace a - ea_projectedPlace b) (ee_athletes event)\<rparr>"
  let ?h = "\<lambda>e. sum_list (map ea_projectedPoints (ee_athletes e))"
  have c: "sum_list (map ea_projectedPoints (concat (map ee_athletes B))) = sum_list (map ?h B)" for B
    by (induction B) auto
  have u: "?h (?upd e) = ?h e" for e by (simp add: sum_list_js_sort)
  have "sum_list (map ?h (map ?upd S)) = sum_list (map ?h S)" for S
    by (induction S) (simp_all add: sum_list_js_sort)
  then show ?thesis
    unfolding finish_breakdown c
    by (simp add: sum_list_js_sort rowsTotal_def comp_def)
qed

lemma simple_core_Inr:
  assumes "simple_core collate R t g gr = Inr r"
  shows "\<exists>ee. r = finishResult collate t g gr (simple_entries (simple_athleteScores t R)) ee \<and>
           rowsTotal ee = sum_list (map ae_projectedPoints (simple_entries (simple_athleteScores t R)))"
proof -
  from assms obtain es ee where
    f: "fold_sum (simple_processAthlete R) (simple_athleteScores t R) ([], []) = Inr (es, ee)"
    and r: "r = finishResult collate t g gr es ee"
    by (auto simp: simple_core_def split: sum.splits prod.splits)
  from simple_athletes_Inr[OF f] r show ?thesis by (auto simp: rowsTotal_def)
qed

lemma simple_core_total: "\<exists>r. simple_core collate R t g gr = Inr r"
proof -
  have "\<forall>p\<in>set (simple_athleteScores t R). fst ` set (snd p) \<subseteq> erd_eventAbbr ` set R"
  proof
    fix p assume "p \<in> set (simple_athleteScores t R)"
    then have "(fst p, snd p) \<in> set (simple_athleteScores t R)" by simp
    from simple_athleteScores_events[OF this]
    show "fst ` set (snd p) \<subseteq> erd_eventAbbr ` set R" by auto
  qed
  from simple_athletes_total[OF this, of "([], [])"]
  obtain st where "fold_sum (simple_processAthlete R) (simple_athleteScores t R) ([], []) = Inr st"
    by blast
  then show ?thesis by (cases st) (simp add: simple_core_def)
qed

lemma advanced_core_Inr:
  assumes "advanced_core collate R t g gr = Inr r"
  shows "\<exists>ee. r = finishResult collate t g gr
                 (advanced_entries (advanced_athleteOptions t (predictCompetition R) R)) ee \<and>
           rowsTotal ee = sum_list (map ae_projectedPoints
                 (advanced_entries (advanced_athleteOptions t (predictCompetition R) R)))"
proof -
  from assms obtain es ee where
    f: "fold_sum (advanced_processAthlete R) (advanced_athleteOptions t (predictCompetition R) R) ([], [])
          = Inr (es, ee)"
    and r: "r = finishResult collate t g gr es ee"
    by (auto simp: advanced_core_def Let_def split: sum.splits prod.splits)
  from advanced_athletes_Inr[OF f] r show ?thesis by (auto simp: rowsTotal_def)
qed

lemma advanced_core_total: "\<exists>r. advanced_core collate R t g gr = Inr r"
proof -
  let ?AO = "advanced_athleteOptions t (predictCompetition R) R"
  have "\<forall>p\<in>set ?AO. aes_event ` set (snd p) \<subseteq> erd_eventAbbr ` set R"
  proof
    fix p assume "p \<in> set ?AO"
    then have "(fst p, snd p) \<in> set ?AO" by simp
    from advanced_athleteOptions_events[OF this]
    show "aes_event ` set (snd p) \<subseteq> erd_eventAbbr ` set R" by auto
  qed
  from advanced_athletes_total[OF this, of "([], [])"]
  obtain st where "fold_sum (advanced_processAthlete R) ?AO ([], []) = Inr st"
    by blast
  then show ?thesis by (cases st) (simp add: advanced_core_def)
qed

lemma simple_entries_mem:
  assumes "e \<in> set (simple_entries aths)"
  shows "\<exists>a sc. (a, sc) \<in> set aths \<and> e = simple_entry (a, sc) \<and> simple_selection sc \<noteq> []"
  using assms unfolding simple_entries_def by fastforce

lemma advanced_entries_mem:
  assumes "e \<in> set (advanced_entries aths)"
  shows "\<exists>a os. (a, os) \<in> set aths \<and> e = advanced_entry (a, os) \<and> fst (advanced_selection os) \<noteq> []"
  using assms unfolding advanced_entries_def by fastforce

lemma simple_entry_events_valid:
  "ae_events (simple_entry (a, sc)) = [] \<or> simple_isValidCombination (ae_events (simple_entry (a, sc)))"
  using simple_selection_valid[of sc] by (simp add: simple_entry_def)

lemma advanced_entry_events_valid:
  "ae_events (advanced_entry (a, os)) = [] \<or> simple_isValidCombination (ae_events (advanced_entry (a, os)))"
  using advanced_selection_valid[of os] by (simp add: advanced_entry_def)

lemma simple_optimize_Inr:
  "simple_optimize collate fs dir season t g gr = Inr r \<Longrightarrow>
   \<exists>R. loadRankings fs dir season g gr = Inr R \<and> simple_core collate R t g gr = Inr r"
  by (auto simp: simple_optimize_def split: sum.splits)

lemma advanced_optimize_Inr:
  "advanced_optimize collate fs dir season t g gr = Inr r \<Longrightarrow>
   \<exists>R. loadRankings fs dir season g gr = Inr R \<and> advanced_core collate R t g gr = Inr r"
  by (auto simp: advanced_optimize_def split: sum.splits)

lemma optimize_entries_valid:
  assumes "simple_optimize collate fs dir season t g gr = Inr r \<or>
           advanced_optimize collate fs dir season t g gr = Inr r"
    and "e \<in> set (athleteEntries r)"
  shows "simple_isValidCombination (ae_events e)"
  using assms(1)
proof
  assume "simple_optimize collate fs dir season t g gr = Inr r"
  then obtain R where "simple_core collate R t g gr = Inr r"
    using simple_optimize_Inr by blast
  from simple_core_Inr[OF this] assms(2)
  have "e \<in> set (simple_entries (simple_athleteScores t R))"
    by (auto simp: finish_entries_set)
  from simple_entries_mem[OF this] obtain a sc where
    "e = simple_entry (a, sc)" "simple_selection sc \<noteq> []" by blast
  then show ?thesis using simple_entry_events_valid[of a sc] by (simp add: simple_entry_def)
next
  assume "advanced_optimize collate fs dir season t g gr = Inr r"
  then obtain R where "advanced_core collate R t g gr = Inr r"
    using advanced_optimize_Inr by blast
  from advanced_core_Inr[OF this] assms(2)
  have "e \<in> set (advanced_entries (advanced_athleteOptions t (predictCompetition R) R))"
    by (auto simp: finish_entries_set)
  from advanced_entries_mem[OF this] obtain a os where
    "e = advanced_entry (a, os)" "fst (advanced_selection os) \<noteq> []" by blast
  then show ?thesis using advanced_entry_events_valid[of a os] by (simp add: advanced_entry_def)
qed

subsection \<open>Points, the distance double and the cap\<close>

lemma points_values:
  "points_lookup 1 = 8" "points_lookup 2 = 6" "points_lookup 3 = 4" "points_lookup 4 = 2" "points_lookup 5 = 1"
  by (simp_all add: points_lookup_def POINTS_TABLE_def)

lemma points_other: "p < 1 \<or> 5 < p \<Longrightarrow> points_lookup p = 0"
  by (auto simp: points_lookup_def POINTS_TABLE_def)

lemma points_mono: "0 < r1 \<Longrightarrow> r1 < r2 \<Longrightarrow> r2 \<le> 5 \<Longrightarrow> points_lookup r2 \<le> points_lookup r1"
proof -
  assume a: "0 < r1" "r1 < r2" "r2 \<le> 5"
  then have "r1 = 1 \<or> r1 = 2 \<or> r1 = 3 \<or> r1 = 4" by arith
  moreover from a have "r2 = 2 \<or> r2 = 3 \<or> r2 = 4 \<or> r2 = 5" by arith
  ultimately show ?thesis using a(2) by (auto simp: points_values)
qed

lemma no_field_four:
  assumes d: "distinct events" and l: "length events = 4"
    and a: "''1600'' \<in> set events" and b: "''800'' \<in> set events"
    and nf: "filter isFieldEvent events = []"
  shows "length (filter (\<lambda>e. isTrackEvent e \<and> e \<noteq> ''1600'' \<and> e \<noteq> ''800'') events) = 2"
proof -
  from nf have all: "\<forall>e\<in>set events. isTrackEvent e"
    by (auto simp: filter_empty_conv isFieldEvent_def)
  have "length (filter (\<lambda>e. isTrackEvent e \<and> e \<noteq> ''1600'' \<and> e \<noteq> ''800'') events)
       = card ({e. isTrackEvent e \<and> e \<noteq> ''1600'' \<and> e \<noteq> ''800''} \<inter> set events)"
    using d by (rule distinct_length_filter)
  also have "{e. isTrackEvent e \<and> e \<noteq> ''1600'' \<and> e \<noteq> ''800''} \<inter> set events = set events - {''1600'', ''800''}"
    using all by auto
  also have "card (set events - {''1600'', ''800''}) = card (set events) - card {''1600'', ''800''}"
    using a b by (intro card_Diff_subset) auto
  also have "card (set events) = 4" using d l by (simp add: distinct_card)
  finally show ?thesis by simp
qed

lemma simple_valid_distinct: "distinct events \<Longrightarrow> simple_isValidCombination events = capAndDoubleRule events"
  using no_field_four[of events]
  by (auto simp: simple_isValidCombination_def capAndDoubleRule_def Let_def filter_filter_other)

lemma length_filter_remove1:
  "x \<in> set xs \<Longrightarrow> P x \<Longrightarrow> length (filter P xs) = Suc (length (filter P (remove1 x xs)))"
  by (induction xs) auto

lemma track_distance: "isTrackEvent ''1600''" "isTrackEvent ''800''"
  by (simp_all add: isTrackEvent_def trackEvents_def)

lemma valid_track_count:
  assumes v: "simple_isValidCombination events"
    and a: "''1600'' \<in> set events" and b: "''800'' \<in> set events"
  shows "length (filter isTrackEvent (remove1 ''1600'' (remove1 ''800'' events))) \<le> 1"
proof -
  have t3: "length (filter isTrackEvent events) \<le> 3"
  proof (cases "length events = 4")
    case True
    from valid_props(3)[OF v a b True] obtain e where e: "e \<in> set events" "\<not> isTrackEvent e"
      by (auto simp: isFieldEvent_def)
    then have "length (filter isTrackEvent events) < length events"
      by (intro length_filter_less) auto
    with True show ?thesis by simp
  next
    case False
    with valid_props(1)[OF v] have "length events \<le> 3" by simp
    then show ?thesis by (rule order_trans[OF length_filter_le])
  qed
  have a': "''1600'' \<in> set (remove1 ''800'' events)" using a by simp
  have "length (filter isTrackEvent events)
      = Suc (Suc (length (filter isTrackEvent (remove1 ''1600'' (remove1 ''800'' events)))))"
    using length_filter_remove1[of "''1600''" "remove1 ''800'' events" isTrackEvent, OF a' track_distance(1)]
      length_filter_remove1[of "''800''" events isTrackEvent, OF b track_distance(2)]
    by simp
  with t3 show ?thesis by simp
qed

lemma simple_greedy_cap: "length sel \<le> 4 \<Longrightarrow> length (simple_greedy cs sel) \<le> 4"
proof (induction cs sel rule: simple_greedy.induct)
  case (1 sel) then show ?case by simp
next
  case (2 event score rest sel)
  show ?case
  proof (cases "simple_isValidCombination (sel @ [event])")
    case True
    from valid_props(1)[OF True] have "length (sel @ [event]) \<le> 4" .
    with 2 True show ?thesis by (simp add: Let_def)
  next
    case False
    with 2 show ?thesis by (simp add: Let_def)
  qed
qed

lemma advanced_greedy_cap: "length (fst sel) \<le> 4 \<Longrightarrow> length (fst (advanced_greedy cs sel)) \<le> 4"
proof (induction cs sel rule: advanced_greedy.induct)
  case (1 sel) then show ?case by simp
next
  case (2 option rest se ss)
  show ?case
  proof (cases "simple_isValidCombination (se @ [aes_event option])")
    case True
    from valid_props(1)[OF True] have "length (se @ [aes_event option]) \<le> 4" .
    with 2 True show ?thesis by (simp add: Let_def valid_eq)
  next
    case False
    with 2 show ?thesis by (simp add: Let_def valid_eq)
  qed
qed

subsection \<open>Results of either optimizer\<close>

lemma optimize_cases:
  assumes "simple_optimize collate fs dir season t g gr = Inr r \<or>
           advanced_optimize collate fs dir season t g gr = Inr r"
  obtains R ee where "loadRankings fs dir season g gr = Inr R"
      "r = finishResult collate t g gr (simple_entries (simple_athleteScores t R)) ee"
      "rowsTotal ee = sum_list (map ae_projectedPoints (simple_entries (simple_athleteScores t R)))"
  | R ee where "loadRankings fs dir season g gr = Inr R"
      "r = finishResult collate t g gr
             (advanced_entries (advanced_athleteOptions t (predictCompetition R) R)) ee"
      "rowsTotal ee = sum_list (map ae_projectedPoints
             (advanced_entries (advanced_athleteOptions t (predictCompetition R) R)))"
  using assms
proof
  assume "simple_optimize collate fs dir season t g gr = Inr r"
  then obtain R where R: "loadRankings fs dir season g gr = Inr R" "simple_core collate R t g gr = Inr r"
    using simple_optimize_Inr by blast
  from simple_core_Inr[OF R(2)] R(1) that(1) show thesis by blast
next
  assume "advanced_optimize collate fs dir season t g gr = Inr r"
  then obtain R where R: "loadRankings fs dir season g gr = Inr R" "advanced_core collate R t g gr = Inr r"
    using advanced_optimize_Inr by blast
  from advanced_core_Inr[OF R(2)] R(1) that(2) show thesis by blast
qed

lemma finish_consistent:
  assumes "rowsTotal ee = sum_list (map ae_projectedPoints es)"
  shows "totalProjectedPoints (finishResult collate t g gr es ee) =
           sum_list (map ae_projectedPoints (athleteEntries (finishResult collate t g gr es ee))) \<and>
         totalProjectedPoints (finishResult collate t g gr es ee) =
           sum_list (map ea_projectedPoints
             (concat (map ee_athletes (eventBreakdown (finishResult collate t g gr es ee)))))"
  using assms by (simp add: finish_total_sorted[symmetric] finish_rows finish_total)

lemma localeCompare_le: "(localeCompare collate a b \<le> 0) = (collate a \<le> collate b)"
  by (auto simp: localeCompare_def)

lemma finish_sorted_entries:
  "sorted_wrt (\<lambda>a b. ae_projectedPoints a \<ge> ae_projectedPoints b)
     (athleteEntries (finishResult collate t g gr es ee))"
proof -
  have "js_sort (\<lambda>a b. ae_projectedPoints b - ae_projectedPoints a) es =
        sort_key (\<lambda>a. - ae_projectedPoints a) es"
    by (rule js_sort_key) auto
  moreover have "sorted (map (\<lambda>a. - ae_projectedPoints a) (sort_key (\<lambda>a. - ae_projectedPoints a) es))"
    by (rule sorted_sort_key)
  ultimately show ?thesis by (simp add: finish_entries sorted_map)
qed

lemma finish_sorted_breakdown:
  "sorted (map (\<lambda>e. collate (ee_event e)) (eventBreakdown (finishResult collate t g gr es ee)))"
proof -
  have "js_sort (\<lambda>a b. localeCompare collate (ee_event a) (ee_event b)) (map snd ee) =
        sort_key (\<lambda>e. collate (ee_event e)) (map snd ee)"
    by (rule js_sort_key) (simp add: localeCompare_le)
  moreover have "sorted (map (\<lambda>e. collate (ee_event e)) (sort_key (\<lambda>e. collate (ee_event e)) (map snd ee)))"
    by (rule sorted_sort_key)
  ultimately show ?thesis by (simp add: finish_breakdown comp_def)
qed

lemma finish_sorted_athletes:
  assumes "e \<in> set (eventBreakdown (finishResult collate t g gr es ee))"
  shows "sorted (map ea_projectedPlace (ee_athletes e))"
proof -
  from assms obtain e0 where
    "e = e0\<lparr>ee_athletes := js_sort (\<lambda>a b. ea_projectedPlace a - ea_projectedPlace b) (ee_athletes e0)\<rparr>"
    by (auto simp: finish_breakdown)
  moreover have "js_sort (\<lambda>a b. ea_projectedPlace a - ea_projectedPlace b) (ee_athletes e0) =
        sort_key ea_projectedPlace (ee_athletes e0)"
    by (rule js_sort_key) auto
  ultimately show ?thesis by (simp add: sorted_sort_key)
qed

lemma simple_entries_athletes:
  "map ae_athlete (simple_entries (simple_athleteScores t R)) = map fst (simple_athleteScores t R)"
proof -
  have "\<forall>p\<in>set (simple_athleteScores t R). simple_selection (snd p) \<noteq> []"
  proof
    fix p assume "p \<in> set (simple_athleteScores t R)"
    then have "(fst p, snd p) \<in> set (simple_athleteScores t R)" by simp
    from simple_selection_nonempty[OF simple_athleteScores_nonempty[OF this]]
    show "simple_selection (snd p) \<noteq> []" .
  qed
  then have "filter (\<lambda>p. simple_selection (snd p) \<noteq> []) (simple_athleteScores t R) = simple_athleteScores t R"
    by (simp add: filter_id_conv)
  then show ?thesis by (simp add: simple_entries_def simple_entry_def split_def comp_def)
qed

lemma advanced_entries_athletes:
  "map ae_athlete (advanced_entries (advanced_athleteOptions t L R)) = map fst (advanced_athleteOptions t L R)"
proof -
  have "\<forall>p\<in>set (advanced_athleteOptions t L R). fst (advanced_selection (snd p)) \<noteq> []"
  proof
    fix p assume "p \<in> set (advanced_athleteOptions t L R)"
    then have "(fst p, snd p) \<in> set (advanced_athleteOptions t L R)" by simp
    from advanced_selection_nonempty[OF advanced_athleteOptions_mem(2)[OF this]]
    show "fst (advanced_selection (snd p)) \<noteq> []" .
  qed
  then have "filter (\<lambda>p. fst (advanced_selection (snd p)) \<noteq> []) (advanced_athleteOptions t L R)
      = advanced_athleteOptions t L R"
    by (simp add: filter_id_conv)
  then show ?thesis by (simp add: advanced_entries_def advanced_entry_def split_def comp_def)
qed

lemma finish_athletes_distinct:
  "distinct (map ae_athlete (athleteEntries (finishResult collate t g gr es ee))) = distinct (map ae_athlete es)"
  by (simp add: finish_entries distinct_map_js_sort)

lemma optimize_total:
  assumes "loadRankings fs dir season g gr = Inr R"
  shows "\<exists>r. simple_optimize collate fs dir season t g gr = Inr r"
    and "\<exists>r. advanced_optimize collate fs dir season t g gr = Inr r"
  using assms simple_core_total[of collate R t g gr] advanced_core_total[of collate R t g gr]
  by (auto simp: simple_optimize_def advanced_optimize_def)

lemma optimize_athletes:
  assumes "loadRankings fs dir season g gr = Inr R"
    and "simple_optimize collate fs dir season t g gr = Inr r \<or>
         advanced_optimize collate fs dir season t g gr = Inr r"
  shows "distinct (map ae_athlete (athleteEntries r))"
    and "set (map ae_athlete (athleteEntries r)) =
          {rk_athlete row | c row. c \<in> set R \<and> row \<in> set (erd_rankings c) \<and> rk_team row = t}"
proof -
  let ?T = "{rk_athlete row | c row. c \<in> set R \<and> row \<in> set (erd_rankings c) \<and> rk_team row = t}"
  have "distinct (map ae_athlete (athleteEntries r)) \<and> set (map ae_athlete (athleteEntries r)) = ?T"
    using assms(2)
  proof (cases rule: optimize_cases)
    case (1 R' ee)
    with assms(1) have R: "R' = R" by simp
    have "set (map ae_athlete (athleteEntries r)) = ae_athlete ` set (simple_entries (simple_athleteScores t R))"
      by (simp add: 1(2) R finish_entries_set)
    also have "\<dots> = set (map ae_athlete (simple_entries (simple_athleteScores t R)))" by simp
    also have "\<dots> = ?T"
      unfolding simple_entries_athletes using simple_athleteScores_keys[of t R] by simp
    finally show ?thesis
      using simple_athleteScores_distinct[of t R]
      by (simp add: 1(2) R finish_athletes_distinct simple_entries_athletes)
  next
    case (2 R' ee)
    with assms(1) have R: "R' = R" by simp
    let ?AO = "advanced_athleteOptions t (predictCompetition R) R"
    have "set (map ae_athlete (athleteEntries r)) = ae_athlete ` set (advanced_entries ?AO)"
      by (simp add: 2(2) R finish_entries_set)
    also have "\<dots> = set (map ae_athlete (advanced_entries ?AO))" by simp
    also have "\<dots> = ?T"
      unfolding advanced_entries_athletes using advanced_athleteOptions_keys[of t _ R] by simp
    finally show ?thesis
      using advanced_athleteOptions_distinct[of t _ R]
      by (simp add: 2(2) R finish_athletes_distinct advanced_entries_athletes)
  qed
  then show "distinct (map ae_athlete (athleteEntries r))"
    and "set (map ae_athlete (athleteEntries r)) = ?T" by simp_all
qed

subsection \<open>Missing data\<close>

lemma athleteScores_no_rows:
  assumes "\<forall>c\<in>set R. \<forall>row\<in>set (erd_rankings c). rk_team row \<noteq> t"
  shows "simple_athleteScores t R = []" and "advanced_athleteOptions t L R = []"
proof -
  from assms have "teamRows t R = []"
    by (auto simp: teamRows_def filter_empty_conv)
  then show "simple_athleteScores t R = []" and "advanced_athleteOptions t L R = []"
    by (simp_all add: simple_athleteScores_flat advanced_athleteOptions_flat)
qed

lemma finish_empty: "finishResult collate t g gr [] [] = emptyResult t g gr"
  by (simp add: finishResult_def emptyResult_def js_sort_Nil)

lemma optimize_no_rows:
  assumes "loadRankings fs dir season g gr = Inr R"
    and "\<forall>c\<in>set R. \<forall>row\<in>set (erd_rankings c). rk_team row \<noteq> t"
  shows "simple_optimize collate fs dir season t g gr = Inr (emptyResult t g gr)"
    and "advanced_optimize collate fs dir season t g gr = Inr (emptyResult t g gr)"
  using assms(1) athleteScores_no_rows[OF assms(2)]
  by (simp_all add: simple_optimize_def advanced_optimize_def simple_core_def advanced_core_def
      finish_empty)

lemma optimize_no_directory:
  assumes "fs dir = None"
  shows "simple_optimize collate fs dir season t g gr = Inl (DirectoryNotFound dir)"
    and "advanced_optimize collate fs dir season t g gr = Inl (DirectoryNotFound dir)"
  using assms by (simp_all add: simple_optimize_def advanced_optimize_def loadRankings_def)

lemma loadFiles_no_category:
  assumes "\<forall>p\<in>set files. \<exists>d. snd p = Some d \<and>
             (\<forall>cat\<in>set (rf_categories d). \<not> (cat_gender cat = g \<and> cat_grade cat = gr))"
  shows "loadFiles g gr files acc = Inr acc"
  using assms
proof (induction files arbitrary: acc)
  case Nil then show ?case by simp
next
  case (Cons p files)
  obtain f c where p: "p = (f, c)" by (cases p)
  from Cons.prems p obtain d where d: "c = Some d"
    and n: "\<forall>cat\<in>set (rf_categories d). \<not> (cat_gender cat = g \<and> cat_grade cat = gr)"
    by auto
  from n have "find (\<lambda>cat. cat_gender cat = g \<and> cat_grade cat = gr) (rf_categories d) = None"
    by (simp add: find_None_iff)
  with Cons p d show ?case by simp
qed

lemma loadRankings_no_category:
  assumes "fs dir = Some (Directory entries)"
    and "\<forall>p\<in>set entries. isRankingFile season (fst p) \<longrightarrow>
           (\<exists>d. snd p = Some d \<and>
             (\<forall>cat\<in>set (rf_categories d). \<not> (cat_gender cat = g \<and> cat_grade cat = gr)))"
  shows "loadRankings fs dir season g gr = Inr []"
proof -
  have "loadFiles g gr (filter (\<lambda>(f, c). isRankingFile season f) entries) [] = Inr []"
    by (rule loadFiles_no_category) (use assms(2) in auto)
  with assms(1) show ?thesis by (simp add: loadRankings_def)
qed

lemma optimize_Inl_iff:
  "(simple_optimize collate fs dir season t g gr = Inl e) = (loadRankings fs dir season g gr = Inl e)"
  "(advanced_optimize collate fs dir season t g gr = Inl e) = (loadRankings fs dir season g gr = Inl e)"
proof -
  show "(simple_optimize collate fs dir season t g gr = Inl e) = (loadRankings fs dir season g gr = Inl e)"
  proof (cases "loadRankings fs dir season g gr")
    case (Inl e') then show ?thesis by (simp add: simple_optimize_def)
  next
    case (Inr R)
    with simple_core_total[of collate R t g gr] show ?thesis
      by (auto simp: simple_optimize_def)
  qed
  show "(advanced_optimize collate fs dir season t g gr = Inl e) = (loadRankings fs dir season g gr = Inl e)"
  proof (cases "loadRankings fs dir season g gr")
    case (Inl e') then show ?thesis by (simp add: advanced_optimize_def)
  next
    case (Inr R)
    with advanced_core_total[of collate R t g gr] show ?thesis
      by (auto simp: advanced_optimize_def)
  qed
qed

subsection \<open>Candidates and the team filter\<close>




subsection \<open>The competition predictor\<close>

lemma count_fold:
  "fold (\<lambda>x n. if P x then n + 1 else n) xs (z::int) = z + int (length (filter P xs))"
  by (induction xs arbitrary: z) auto

lemma calculateProjectedPlace_count:
  "calculateProjectedPlace athlete event currentRank L c =
     1 + int (length (filter (\<lambda>row. rk_rank row < currentRank \<and> likelyCompeting L event (rk_athlete row))
                        (erd_rankings c)))"
proof -
  have "fold (\<lambda>ranking competitorsAhead.
            if rk_rank ranking < currentRank then
              (case map_of L (rk_athlete ranking) of
                 Some athleteEvents \<Rightarrow>
                   if event \<in> athleteEvents then competitorsAhead + 1 else competitorsAhead
               | None \<Rightarrow> competitorsAhead)
            else competitorsAhead) (erd_rankings c) (0::int) =
        fold (\<lambda>row n. if rk_rank row < currentRank \<and> likelyCompeting L event (rk_athlete row)
                 then n + 1 else n) (erd_rankings c) 0"
    by (rule fold_cong) (auto simp: fun_eq_iff likelyCompeting_def split: option.splits)
  then show ?thesis
    by (simp add: calculateProjectedPlace_def count_fold)
qed

lemma set_teamAthletesOf:
  "set (teamAthletesOf rows) =
     (\<lambda>t. (t, map rk_athlete (filter (\<lambda>r. rk_team r = t) rows))) ` rk_team ` set rows"
proof -
  let ?m = "fold (\<lambda>ranking. jsmap_upsert (rk_team ranking) []
                         (\<lambda>athletes. athletes @ [rk_athlete ranking])) rows []"
  have mo: "map_of ?m t = (if t \<in> rk_team ` set rows
              then Some (map rk_athlete (filter (\<lambda>r. rk_team r = t) rows)) else None)" for t
    by (simp add: upsert_fold_map_of fold_snoc_map)
  have d: "distinct (map fst ?m)" by (rule upsert_fold_distinct)
  have "(t, as) \<in> set ?m \<longleftrightarrow>
        t \<in> rk_team ` set rows \<and> as = map rk_athlete (filter (\<lambda>r. rk_team r = t) rows)" for t as
    using map_of_eq_Some_iff[OF d, of t as] mo[of t] by (auto split: if_splits)
  then show ?thesis unfolding teamAthletesOf_def by auto
qed

lemma addLikely_flat:
  "addLikely e teamEntry L =
     fold (\<lambda>p. jsmap_upsert (snd p) {} (insert (fst p)))
       (map (Pair e) (take (min 3 (length (snd teamEntry))) (snd teamEntry))) L"
  by (cases teamEntry) (simp add: addLikely_def Let_def fold_map comp_def)

lemma addLikely_fold_flat:
  "fold (addLikely e) tas L =
     fold (\<lambda>p. jsmap_upsert (snd p) {} (insert (fst p)))
       (concat (map (\<lambda>teamEntry. map (Pair e)
                   (take (min 3 (length (snd teamEntry))) (snd teamEntry))) tas)) L"
  by (induction tas arbitrary: L) (simp_all add: addLikely_flat)

lemma predictCompetition_fold_flat:
  "fold (\<lambda>eventData. fold (addLikely (erd_eventAbbr eventData))
                          (teamAthletesOf (erd_rankings eventData))) R L =
   fold (\<lambda>p. jsmap_upsert (snd p) {} (insert (fst p))) (likelyPairs R) L"
  by (induction R arbitrary: L) (simp_all add: likelyPairs_def addLikely_fold_flat)

lemma predictCompetition_flat:
  "predictCompetition R = fold (\<lambda>p. jsmap_upsert (snd p) {} (insert (fst p))) (likelyPairs R) []"
  by (simp add: predictCompetition_def predictCompetition_fold_flat)

lemma likelyCompeting_pairs:
  "likelyCompeting (predictCompetition R) e a \<longleftrightarrow> (e, a) \<in> set (likelyPairs R)"
  by (force simp: likelyCompeting_def predictCompetition_flat upsert_fold_map_of fold_insert_set)

lemma set_likelyPairs:
  "set (likelyPairs R) =
     {(erd_eventAbbr c, a) | c t a. c \<in> set R \<and> t \<in> rk_team ` set (erd_rankings c) \<and>
        a \<in> set (teamTopThree (erd_rankings c) t)}"
  by (auto simp: likelyPairs_def set_teamAthletesOf teamTopThree_def Let_def)

lemma likelyCompeting_spec:
  "likelyCompeting (predictCompetition R) e a \<longleftrightarrow> a \<in> likelySetSpec R e"
  unfolding likelyCompeting_pairs set_likelyPairs likelySetSpec_def by auto

lemma sorted_team_rows:
  "sorted (map rk_rank rows) \<Longrightarrow> sorted (map rk_rank (filter (\<lambda>r. rk_team r = t) rows))"
  by (induction rows) auto

subsection \<open>The worked example and the scenarios of the specification\<close>

lemma exLoad: "loadRankings exFs ''rankings'' ''2025'' ''Male'' ''8th grade'' = Inr exRankings"
  by code_simp

lemma exSimple_run: "simple_optimize codepoints exFs ''rankings'' ''2025'' ''T'' ''Male'' ''8th grade'' = Inr exSimple"
  by code_simp

lemma exAdvanced_run: "advanced_optimize codepoints exFs ''rankings'' ''2025'' ''T'' ''Male'' ''8th grade'' = Inr exAdvanced"
  by code_simp

lemma scenario_A:
  "selections (simple_core codepoints (scenario ''X'' [(''100'', 1), (''LJ'', 1)]) ''T'' ''Male'' ''8th grade'')
     = Inr [([''100'', ''LJ''], 16)]"
  by code_simp

lemma scenario_B:
  "selections (simple_core codepoints
       (scenario ''Y'' [(''1600'', 2), (''800'', 3), (''200'', 1), (''LJ'', 1)]) ''T'' ''Male'' ''8th grade'')
     = Inr [([''200'', ''LJ'', ''1600'', ''800''], 26)]"
  by code_simp

lemma scenario_C:
  "selections (simple_core codepoints
       (scenario ''Z'' [(''1600'', 1), (''800'', 1), (''200'', 1), (''400'', 1)]) ''T'' ''Male'' ''8th grade'')
     = Inr [([''1600'', ''800'', ''200''], 24)]"
  by code_simp

lemma scenario_C_advanced:
  "selections (advanced_core codepoints
       (scenario ''Z'' [(''1600'', 1), (''800'', 1), (''200'', 1), (''400'', 1)]) ''T'' ''Male'' ''8th grade'')
     = Inr [([''1600'', ''800'', ''200''], 24)]"
  by code_simp

lemma scenario_D:
  "calculateProjectedPlace ''C'' ''100'' 3 (predictCompetition [scenarioD]) scenarioD = 3"
  by code_simp

section \<open>Properties of the optimizers\<close>

text \<open>
  C1. In every result of either optimizer, an athlete entry whose selected events contain
  both 1600 and 800 has at most one other track event (counted as the source counts it, and
  also among the events that remain when one 1600 and one 800 are taken away), and if it has
  exactly four events one of them is a field event.
\<close>

theorem distance_double_invariant:
  assumes "simple_optimize collate fs rankingsDir season teamName gender' grade' = Inr r \<or>
           advanced_optimize collate fs rankingsDir season teamName gender' grade' = Inr r"
    and "e \<in> set (athleteEntries r)"
    and "''1600'' \<in> set (ae_events e)" and "''800'' \<in> set (ae_events e)"
  shows "length (filter (\<lambda>x. isTrackEvent x \<and> x \<noteq> ''1600'' \<and> x \<noteq> ''800'') (ae_events e)) \<le> 1 \<and>
         length (filter isTrackEvent (remove1 ''1600'' (remove1 ''800'' (ae_events e)))) \<le> 1 \<and>
         (length (ae_events e) = 4 \<longrightarrow> (\<exists>x\<in>set (ae_events e). isFieldEvent x))"
proof -
  have v: "simple_isValidCombination (ae_events e)"
    by (rule optimize_entries_valid[OF assms(1,2)])
  show ?thesis
    using valid_props(2,3)[OF v assms(3,4)] valid_track_count[OF v assms(3,4)] by blast
qed

theorem distance_double_witness:
  "simple_optimize codepoints exFs ''rankings'' ''2025'' ''T'' ''Male'' ''8th grade'' = Inr exSimple \<and>
   hd (athleteEntries exSimple) \<in> set (athleteEntries exSimple) \<and>
   ''1600'' \<in> set (ae_events (hd (athleteEntries exSimple))) \<and>
   ''800'' \<in> set (ae_events (hd (athleteEntries exSimple))) \<and>
   length (ae_events (hd (athleteEntries exSimple))) = 4 \<and>
   length (filter (\<lambda>x. isTrackEvent x \<and> x \<noteq> ''1600'' \<and> x \<noteq> ''800'')
             (ae_events (hd (athleteEntries exSimple)))) \<le> 1 \<and>
   (\<exists>x\<in>set (ae_events (hd (athleteEntries exSimple))). isFieldEvent x) \<and>
   advanced_optimize codepoints exFs ''rankings'' ''2025'' ''T'' ''Male'' ''8th grade'' = Inr exAdvanced \<and>
   hd (athleteEntries exAdvanced) \<in> set (athleteEntries exAdvanced) \<and>
   ''1600'' \<in> set (ae_events (hd (athleteEntries exAdvanced))) \<and>
   ''800'' \<in> set (ae_events (hd (athleteEntries exAdvanced))) \<and>
   length (ae_events (hd (athleteEntries exAdvanced))) = 4 \<and>
   length (filter isTrackEvent
             (remove1 ''1600'' (remove1 ''800'' (ae_events (hd (athleteEntries exAdvanced)))))) \<le> 1 \<and>
   (\<exists>x\<in>set (ae_events (hd (athleteEntries exAdvanced))). isFieldEvent x)"
proof -
  have s1: "simple_optimize codepoints exFs ''rankings'' ''2025'' ''T'' ''Male'' ''8th grade'' = Inr exSimple"
    by (rule exSimple_run)
  have s2: "hd (athleteEntries exSimple) \<in> set (athleteEntries exSimple)"
    and s3: "''1600'' \<in> set (ae_events (hd (athleteEntries exSimple)))"
    and s4: "''800'' \<in> set (ae_events (hd (athleteEntries exSimple)))"
    and s5: "length (ae_events (hd (athleteEntries exSimple))) = 4"
    by (simp_all add: exSimple_def)
  have a1: "advanced_optimize codepoints exFs ''rankings'' ''2025'' ''T'' ''Male'' ''8th grade'' = Inr exAdvanced"
    by (rule exAdvanced_run)
  have a2: "hd (athleteEntries exAdvanced) \<in> set (athleteEntries exAdvanced)"
    and a3: "''1600'' \<in> set (ae_events (hd (athleteEntries exAdvanced)))"
    and a4: "''800'' \<in> set (ae_events (hd (athleteEntries exAdvanced)))"
    and a5: "length (ae_events (hd (athleteEntries exAdvanced))) = 4"
    by (simp_all add: exAdvanced_def)
  from distance_double_invariant[OF disjI1[OF s1] s2 s3 s4]
       distance_double_invariant[OF disjI2[OF a1] a2 a3 a4]
       s1 s2 s3 s4 s5 a1 a2 a3 a4 a5
  show ?thesis by blast
qed

text \<open>
  C2. In every result of either optimizer, each athlete entry has at most four selected
  events; \<open>isValidCombination\<close> rejects every list longer than four, and the greedy loops
  never extend a selection beyond four events.
\<close>

theorem entry_cap:
  "(simple_optimize collate fs rankingsDir season teamName gender' grade' = Inr r \<or>
    advanced_optimize collate fs rankingsDir season teamName gender' grade' = Inr r
      \<longrightarrow> (\<forall>e\<in>set (athleteEntries r). length (ae_events e) \<le> 4)) \<and>
   (length events > 4 \<longrightarrow>
      \<not> simple_isValidCombination events \<and> \<not> advanced_isValidCombination events) \<and>
   (length selectedEvents \<le> 4 \<longrightarrow> length (simple_greedy sortedEvents selectedEvents) \<le> 4) \<and>
   (length (fst selected) \<le> 4 \<longrightarrow> length (fst (advanced_greedy sortedOptions selected)) \<le> 4)"
proof -
  have "length (ae_events e) \<le> 4"
    if "simple_optimize collate fs rankingsDir season teamName gender' grade' = Inr r \<or>
        advanced_optimize collate fs rankingsDir season teamName gender' grade' = Inr r"
      and "e \<in> set (athleteEntries r)" for e
    using valid_props(1)[OF optimize_entries_valid[OF that]] .
  moreover have "\<not> simple_isValidCombination events \<and> \<not> advanced_isValidCombination events"
    if "length events > 4"
    using that by (simp add: simple_isValidCombination_def advanced_isValidCombination_def)
  ultimately show ?thesis using simple_greedy_cap advanced_greedy_cap by blast
qed


theorem entry_cap_witness:
  "simple_optimize codepoints exFs ''rankings'' ''2025'' ''T'' ''Male'' ''8th grade'' = Inr exSimple \<and>
   hd (athleteEntries exSimple) \<in> set (athleteEntries exSimple) \<and>
   length (ae_events (hd (athleteEntries exSimple))) \<le> 4 \<and>
   length [''100'', ''200'', ''400'', ''LJ'', ''HJ''] > 4 \<and>
   \<not> simple_isValidCombination [''100'', ''200'', ''400'', ''LJ'', ''HJ''] \<and>
   \<not> advanced_isValidCombination [''100'', ''200'', ''400'', ''LJ'', ''HJ''] \<and>
   length [''100'', ''200'', ''400'', ''LJ''] \<le> 4 \<and>
   length (simple_greedy [(''HJ'', \<lparr>sc_rank = 1, sc_points = 8\<rparr>)] [''100'', ''200'', ''400'', ''LJ'']) \<le> 4 \<and>
   length (fst ([''100'', ''200'', ''400''], [] :: AthleteEventScore list)) \<le> 4 \<and>
   length (fst (advanced_greedy (snd (hd (advanced_athleteOptions ''T'' [] exRankings)))
                  ([''100'', ''200'', ''400''], []))) \<le> 4"
proof -
  have s1: "simple_optimize codepoints exFs ''rankings'' ''2025'' ''T'' ''Male'' ''8th grade'' = Inr exSimple"
    by (rule exSimple_run)
  have s2: "hd (athleteEntries exSimple) \<in> set (athleteEntries exSimple)"
    by (simp add: exSimple_def)
  have l: "length [''100'', ''200'', ''400'', ''LJ'', ''HJ''] > 4"
    "length [''100'', ''200'', ''400'', ''LJ''] \<le> 4"
    "length (fst ([''100'', ''200'', ''400''], [] :: AthleteEventScore list)) \<le> 4"
    by simp_all
  from entry_cap[where collate = codepoints and fs = exFs and rankingsDir = "''rankings''"
        and season = "''2025''" and teamName = "''T''" and gender' = "''Male''"
        and grade' = "''8th grade''" and r = exSimple
        and events = "[''100'', ''200'', ''400'', ''LJ'', ''HJ'']"
        and selectedEvents = "[''100'', ''200'', ''400'', ''LJ'']"
        and sortedEvents = "[(''HJ'', \<lparr>sc_rank = 1, sc_points = 8\<rparr>)]"
        and selected = "([''100'', ''200'', ''400''], [])"
        and sortedOptions = "snd (hd (advanced_athleteOptions ''T'' [] exRankings))"]
    s1 s2 l
  show ?thesis by blast
qed

text \<open>
  C3. In every result of either optimizer, \<open>totalProjectedPoints\<close> is the sum of
  \<open>projectedPoints\<close> over the athlete entries, and also the sum of \<open>projectedPoints\<close> over
  all per-athlete rows of all event-breakdown entries.
\<close>

theorem total_consistency:
  assumes "simple_optimize collate fs rankingsDir season teamName gender' grade' = Inr r \<or>
           advanced_optimize collate fs rankingsDir season teamName gender' grade' = Inr r"
  shows "totalProjectedPoints r = sum_list (map ae_projectedPoints (athleteEntries r)) \<and>
         totalProjectedPoints r =
           sum_list (map ea_projectedPoints (concat (map ee_athletes (eventBreakdown r))))"
  using assms
proof (cases rule: optimize_cases)
  case (1 R ee)
  from finish_consistent[OF 1(3)] 1(2) show ?thesis by simp
next
  case (2 R ee)
  from finish_consistent[OF 2(3)] 2(2) show ?thesis by simp
qed

theorem total_consistency_witness:
  "simple_optimize codepoints exFs ''rankings'' ''2025'' ''T'' ''Male'' ''8th grade'' = Inr exSimple \<and>
   totalProjectedPoints exSimple = sum_list (map ae_projectedPoints (athleteEntries exSimple)) \<and>
   totalProjectedPoints exSimple =
     sum_list (map ea_projectedPoints (concat (map ee_athletes (eventBreakdown exSimple)))) \<and>
   advanced_optimize codepoints exFs ''rankings'' ''2025'' ''T'' ''Male'' ''8th grade'' = Inr exAdvanced \<and>
   totalProjectedPoints exAdvanced = sum_list (map ae_projectedPoints (athleteEntries exAdvanced)) \<and>
   totalProjectedPoints exAdvanced =
     sum_list (map ea_projectedPoints (concat (map ee_athletes (eventBreakdown exAdvanced))))"
  using total_consistency[OF disjI1[OF exSimple_run]] total_consistency[OF disjI2[OF exAdvanced_run]]
    exSimple_run exAdvanced_run
  by blast

text \<open>
  C4. \<open>calculateProjectedPlace\<close> returns 1 plus the number of rows of the category whose rank
  is below the given rank and whose athlete is in the likely-competing set of the event, and
  \<open>predictCompetition\<close> marks as likely for an event exactly the athletes that are among the
  first \<open>min(3, n)\<close> of some team's \<open>n\<close> athletes in a category with that event code; when
  the rows of a category ascend by rank, so do the rows of each team, so that the order within
  a team is its rank order.
\<close>

theorem projected_place_counts_likely_rivals:
  "calculateProjectedPlace athlete event currentRank (predictCompetition allRankings) eventRankings =
     1 + int (length (filter (\<lambda>row. rk_rank row < currentRank \<and>
                                    rk_athlete row \<in> likelySetSpec allRankings event)
                        (erd_rankings eventRankings))) \<and>
   (\<forall>a. likelyCompeting (predictCompetition allRankings) event a =
          (a \<in> likelySetSpec allRankings event)) \<and>
   (sorted (map rk_rank (erd_rankings eventRankings)) \<longrightarrow>
      sorted (map rk_rank (filter (\<lambda>r. rk_team r = team) (erd_rankings eventRankings))))"
  by (simp add: calculateProjectedPlace_count likelyCompeting_spec sorted_team_rows)

theorem projected_place_witness:
  "sorted (map rk_rank (erd_rankings (last exRankings))) \<and>
   sorted (map rk_rank (filter (\<lambda>r. rk_team r = ''Q'') (erd_rankings (last exRankings)))) \<and>
   calculateProjectedPlace ''Zed Young'' ''LJ'' 6 (predictCompetition exRankings) (last exRankings) =
     1 + int (length (filter (\<lambda>row. rk_rank row < 6 \<and> rk_athlete row \<in> likelySetSpec exRankings ''LJ'')
                        (erd_rankings (last exRankings)))) \<and>
   calculateProjectedPlace ''Zed Young'' ''LJ'' 6 (predictCompetition exRankings) (last exRankings) = 5 \<and>
   likelySetSpec exRankings ''LJ'' = {''Amy Ach'', ''Zed Young'', ''Cy Dee'', ''Dan Eff'', ''Eli Gee''}"
proof -
  have s: "sorted (map rk_rank (erd_rankings (last exRankings)))"
    by (simp add: exRankings_def exRow_def)
  have v: "calculateProjectedPlace ''Zed Young'' ''LJ'' 6 (predictCompetition exRankings) (last exRankings) = 5"
    by code_simp
  have l: "likelySetSpec exRankings ''LJ'' = {''Amy Ach'', ''Zed Young'', ''Cy Dee'', ''Dan Eff'', ''Eli Gee''}"
    by code_simp
  from projected_place_counts_likely_rivals[where allRankings = exRankings
         and eventRankings = "last exRankings" and team = "''Q''" and athlete = "''Zed Young''"
         and event = "''LJ''" and currentRank = 6] s v l
  show ?thesis by blast
qed

text \<open>
  C5. The points lookup \<open>POINTS_TABLE[place] || 0\<close> is total: places 1 to 5 score 8, 6, 4, 2
  and 1, every other place scores 0. Hence over positive places \<open>r1 < r2 \<le> 5\<close> the points do
  not increase, and every place from 6 on scores 0.
\<close>

theorem points_table_total_monotone:
  "points_lookup 1 = 8 \<and> points_lookup 2 = 6 \<and> points_lookup 3 = 4 \<and> points_lookup 4 = 2 \<and>
   points_lookup 5 = 1 \<and>
   (\<forall>p. p \<notin> {1, 2, 3, 4, 5} \<longrightarrow> points_lookup p = 0) \<and>
   (\<forall>r1 r2. 0 < r1 \<and> r1 < r2 \<and> r2 \<le> 5 \<longrightarrow> points_lookup r2 \<le> points_lookup r1) \<and>
   (\<forall>r. 6 \<le> r \<longrightarrow> points_lookup r = 0)"
proof -
  have "points_lookup p = 0" if "p \<notin> {1, 2, 3, 4, 5}" for p
    using that by (auto simp: points_lookup_def POINTS_TABLE_def)
  moreover have "points_lookup r = 0" if "6 \<le> r" for r
    using that by (simp add: points_other)
  ultimately show ?thesis using points_values points_mono by blast
qed

theorem points_table_witness:
  "(0::int) \<notin> {1, 2, 3, 4, 5} \<and> points_lookup 0 = 0 \<and>
   (0::int) < 2 \<and> (2::int) < 4 \<and> (4::int) \<le> 5 \<and> points_lookup 4 \<le> points_lookup 2 \<and>
   (6::int) \<le> 9 \<and> points_lookup 9 = 0"
proof -
  have h: "(0::int) \<notin> {1, 2, 3, 4, 5}" "(0::int) < 2 \<and> (2::int) < 4 \<and> (4::int) \<le> 5" "(6::int) \<le> 9"
    by simp_all
  with points_table_total_monotone show ?thesis by blast
qed

text \<open>
  C6. The claim: either optimizer raises an error to its caller whenever no ranking category
  matches the requested gender and grade, and returns the result with total 0 and empty
  lists when matching categories hold no row of the target team. The source keeps the second
  half (lemma \<open>optimize_no_rows\<close>) and breaks the first: \<open>loadRankings\<close> throws only for a
  missing directory and skips a file without a matching category, although the caller in
  optimize-team-entry-advanced.ts checks the directory itself and then catches an error of
  \<open>optimize\<close> to report "No data" for a gender and grade. Evaluated on the example directory,
  which exists and has no category for the seventh grade, \<open>loadRankings\<close> returns the empty
  list and both optimizers return the empty result where the claim asks for a failure; a
  missing directory is the one case in which they fail.
\<close>

theorem no_matching_category_no_failure:
  "exFs ''rankings'' = Some (Directory exDir) \<and>
   loadRankings exFs ''rankings'' ''2025'' ''Male'' ''7th grade'' = Inr [] \<and>
   simple_optimize codepoints exFs ''rankings'' ''2025'' ''T'' ''Male'' ''7th grade''
     = Inr \<lparr>school = ''T'', gender = ''Male'', grade = ''7th grade'', totalProjectedPoints = 0,
            athleteEntries = [], eventBreakdown = []\<rparr> \<and>
   advanced_optimize codepoints exFs ''rankings'' ''2025'' ''T'' ''Male'' ''7th grade''
     = Inr \<lparr>school = ''T'', gender = ''Male'', grade = ''7th grade'', totalProjectedPoints = 0,
            athleteEntries = [], eventBreakdown = []\<rparr> \<and>
   simple_optimize codepoints exFs ''nowhere'' ''2025'' ''T'' ''Male'' ''7th grade''
     = Inl (DirectoryNotFound ''nowhere'') \<and>
   advanced_optimize codepoints exFs ''nowhere'' ''2025'' ''T'' ''Male'' ''7th grade''
     = Inl (DirectoryNotFound ''nowhere'')"
proof -
  have "exFs ''rankings'' = Some (Directory exDir)" by (simp add: exFs_def)
  moreover have "loadRankings exFs ''rankings'' ''2025'' ''Male'' ''7th grade'' = Inr []"
    by code_simp
  moreover have "simple_optimize codepoints exFs ''rankings'' ''2025'' ''T'' ''Male'' ''7th grade''
     = Inr \<lparr>school = ''T'', gender = ''Male'', grade = ''7th grade'', totalProjectedPoints = 0,
            athleteEntries = [], eventBreakdown = []\<rparr>"
    by code_simp
  moreover have "advanced_optimize codepoints exFs ''rankings'' ''2025'' ''T'' ''Male'' ''7th grade''
     = Inr \<lparr>school = ''T'', gender = ''Male'', grade = ''7th grade'', totalProjectedPoints = 0,
            athleteEntries = [], eventBreakdown = []\<rparr>"
    by code_simp
  moreover have "simple_optimize codepoints exFs ''nowhere'' ''2025'' ''T'' ''Male'' ''7th grade''
     = Inl (DirectoryNotFound ''nowhere'')"
    by code_simp
  moreover have "advanced_optimize codepoints exFs ''nowhere'' ''2025'' ''T'' ''Male'' ''7th grade''
     = Inl (DirectoryNotFound ''nowhere'')"
    by code_simp
  ultimately show ?thesis by blast
qed

text \<open>
  C7. Once the rankings are loaded, either optimizer returns a result, and its athlete
  entries name each athlete that has a row of the target team in a loaded category exactly
  once, and nobody else: a single event is always a valid combination, so the first candidate
  is accepted.
\<close>

theorem one_entry_per_ranked_athlete:
  assumes "loadRankings fs rankingsDir season gender' grade' = Inr allRankings"
  shows "(\<exists>r. simple_optimize collate fs rankingsDir season teamName gender' grade' = Inr r) \<and>
         (\<exists>r. advanced_optimize collate fs rankingsDir season teamName gender' grade' = Inr r) \<and>
         (\<forall>r. simple_optimize collate fs rankingsDir season teamName gender' grade' = Inr r \<or>
               advanced_optimize collate fs rankingsDir season teamName gender' grade' = Inr r \<longrightarrow>
            distinct (map ae_athlete (athleteEntries r)) \<and>
            set (map ae_athlete (athleteEntries r)) =
              {rk_athlete row | c row.
                 c \<in> set allRankings \<and> row \<in> set (erd_rankings c) \<and> rk_team row = teamName}) \<and>
         (\<forall>event. simple_isValidCombination [event] \<and> advanced_isValidCombination [event])"
  using optimize_total[OF assms] optimize_athletes[OF assms] valid_single valid_eq
  by blast

theorem one_entry_per_ranked_athlete_witness:
  "loadRankings exFs ''rankings'' ''2025'' ''Male'' ''8th grade'' = Inr exRankings \<and>
   simple_optimize codepoints exFs ''rankings'' ''2025'' ''T'' ''Male'' ''8th grade'' = Inr exSimple \<and>
   distinct (map ae_athlete (athleteEntries exSimple)) \<and>
   set (map ae_athlete (athleteEntries exSimple)) =
     {rk_athlete row | c row.
        c \<in> set exRankings \<and> row \<in> set (erd_rankings c) \<and> rk_team row = ''T''} \<and>
   advanced_optimize codepoints exFs ''rankings'' ''2025'' ''T'' ''Male'' ''8th grade'' = Inr exAdvanced \<and>
   distinct (map ae_athlete (athleteEntries exAdvanced)) \<and>
   set (map ae_athlete (athleteEntries exAdvanced)) =
     {rk_athlete row | c row.
        c \<in> set exRankings \<and> row \<in> set (erd_rankings c) \<and> rk_team row = ''T''} \<and>
   map ae_athlete (athleteEntries exSimple) = [''Zed Young'', ''Amy Ach'']"
proof -
  have v: "map ae_athlete (athleteEntries exSimple) = [''Zed Young'', ''Amy Ach'']"
    by (simp add: exSimple_def)
  from one_entry_per_ranked_athlete[OF exLoad, of codepoints "''T''"] exLoad exSimple_run
    exAdvanced_run v
  show ?thesis by blast
qed

text \<open>
  C8. In every result of either optimizer, the athlete entries are in descending order of
  \<open>projectedPoints\<close>, the event breakdown is in ascending order of the event code (in the
  collation order that \<open>localeCompare\<close> compares by), and the athletes of each breakdown entry
  are in ascending order of \<open>projectedPlace\<close>.
\<close>

theorem output_sorted:
  assumes "simple_optimize collate fs rankingsDir season teamName gender' grade' = Inr r \<or>
           advanced_optimize collate fs rankingsDir season teamName gender' grade' = Inr r"
  shows "sorted_wrt (\<lambda>a b. ae_projectedPoints a \<ge> ae_projectedPoints b) (athleteEntries r) \<and>
         sorted (map (\<lambda>e. collate (ee_event e)) (eventBreakdown r)) \<and>
         sorted_wrt (\<lambda>a b. localeCompare collate (ee_event a) (ee_event b) \<le> 0) (eventBreakdown r) \<and>
         (\<forall>e\<in>set (eventBreakdown r). sorted (map ea_projectedPlace (ee_athletes e)))"
proof -
  obtain es ee where r: "r = finishResult collate teamName gender' grade' es ee"
    using assms by (cases rule: optimize_cases) blast+
  have a: "sorted_wrt (\<lambda>a b. ae_projectedPoints a \<ge> ae_projectedPoints b) (athleteEntries r)"
    unfolding r by (rule finish_sorted_entries)
  have b: "sorted (map (\<lambda>e. collate (ee_event e)) (eventBreakdown r))"
    unfolding r by (rule finish_sorted_breakdown)
  from b have c: "sorted_wrt (\<lambda>a b. localeCompare collate (ee_event a) (ee_event b) \<le> 0)
                    (eventBreakdown r)"
    by (simp add: sorted_map localeCompare_le)
  have d: "\<forall>e\<in>set (eventBreakdown r). sorted (map ea_projectedPlace (ee_athletes e))"
    unfolding r using finish_sorted_athletes by blast
  from a b c d show ?thesis by blast
qed

theorem output_sorted_witness:
  "simple_optimize codepoints exFs ''rankings'' ''2025'' ''T'' ''Male'' ''8th grade'' = Inr exSimple \<and>
   sorted_wrt (\<lambda>a b. ae_projectedPoints a \<ge> ae_projectedPoints b) (athleteEntries exSimple) \<and>
   sorted (map (\<lambda>e. codepoints (ee_event e)) (eventBreakdown exSimple)) \<and>
   advanced_optimize codepoints exFs ''rankings'' ''2025'' ''T'' ''Male'' ''8th grade'' = Inr exAdvanced \<and>
   sorted_wrt (\<lambda>a b. ae_projectedPoints a \<ge> ae_projectedPoints b) (athleteEntries exAdvanced) \<and>
   sorted (map (\<lambda>e. codepoints (ee_event e)) (eventBreakdown exAdvanced)) \<and>
   last (eventBreakdown exAdvanced) \<in> set (eventBreakdown exAdvanced) \<and>
   sorted (map ea_projectedPlace (ee_athletes (last (eventBreakdown exAdvanced))))"
proof -
  have m: "last (eventBreakdown exAdvanced) \<in> set (eventBreakdown exAdvanced)"
    by (simp add: exAdvanced_def)
  from output_sorted[OF disjI1[OF exSimple_run]] output_sorted[OF disjI2[OF exAdvanced_run]]
    exSimple_run exAdvanced_run m
  show ?thesis by blast
qed



text \<open>
  C10. On a list of event codes without duplicates, \<open>isValidCombination\<close> of either optimizer
  equals the simpler predicate \<open>capAndDoubleRule\<close> (at most four events, and with both 1600
  and 800 present at most one other track event): the clause about a field event among four
  events is then redundant. The two copies of \<open>isValidCombination\<close> agree on every list.
  On a list with duplicates the two predicates can differ, as the counterexample shows.
\<close>

theorem isValidCombination_cap_and_double:
  assumes "distinct events"
  shows "simple_isValidCombination events = capAndDoubleRule events \<and>
         advanced_isValidCombination events = capAndDoubleRule events \<and>
         (\<forall>evs. advanced_isValidCombination evs = simple_isValidCombination evs)"
  using simple_valid_distinct[OF assms] valid_eq by simp

theorem isValidCombination_cap_and_double_witness:
  "distinct [''1600'', ''800'', ''200'', ''400''] \<and>
   ''1600'' \<in> set [''1600'', ''800'', ''200'', ''400''] \<and>
   ''800'' \<in> set [''1600'', ''800'', ''200'', ''400''] \<and>
   simple_isValidCombination [''1600'', ''800'', ''200'', ''400''] =
     capAndDoubleRule [''1600'', ''800'', ''200'', ''400''] \<and>
   advanced_isValidCombination [''1600'', ''800'', ''200'', ''400''] =
     capAndDoubleRule [''1600'', ''800'', ''200'', ''400'']"
proof -
  have d: "distinct [''1600'', ''800'', ''200'', ''400'']" by simp
  have m: "''1600'' \<in> set [''1600'', ''800'', ''200'', ''400'']"
          "''800'' \<in> set [''1600'', ''800'', ''200'', ''400'']" by simp_all
  from isValidCombination_cap_and_double[OF d] d m show ?thesis by blast
qed

theorem isValidCombination_duplicates_counterexample:
  "simple_isValidCombination [''1600'', ''800'', ''1600'', ''800''] \<noteq>
   capAndDoubleRule [''1600'', ''800'', ''1600'', ''800'']"
  by (simp add: simple_isValidCombination_def capAndDoubleRule_def isFieldEvent_def
      isTrackEvent_def trackEvents_def)

end
